theory Spec2Isabelle
  imports Main "HOL-Library.Sublist"
begin

section \<open>The pull request sweeper: a model of \<^verbatim>\<open>sweep_PR.py\<close>\<close>

text \<open>
  The development embeds the function \<^verbatim>\<open>cherryPickPr\<close> of \<^verbatim>\<open>src/sweep_PR.py\<close>:
  the label handling, the resolution of target branches from the rule table, the
  disposition label, the publish loop over the target branches and the sweep summary.
  The forge (GitHub), git and the regular expression library are outside the program:
  they are a parameter, the record \<open>world\<close>, which answers every call the program makes.
  The program's effects are the list of calls it makes, in order, each with its outcome.

  A Python \<^verbatim>\<open>str\<close> is a \<^typ>\<open>string\<close>, one \<^typ>\<open>char\<close> per character.
\<close>

subsection \<open>Strings\<close>

text \<open>\<^verbatim>\<open>s.split(sep)\<close> for a separator of one character: every occurrence splits.\<close>

fun split :: "char \<Rightarrow> string \<Rightarrow> string list" where
  "split sep [] = [[]]"
| "split sep (c # cs) =
     (if c = sep then [] # split sep cs
      else (case split sep cs of
              [] \<Rightarrow> [[c]]
            | w # ws \<Rightarrow> (c # w) # ws))"

text \<open>\<^verbatim>\<open>s.encode("ascii", "replace")\<close>: a character outside ASCII becomes \<^verbatim>\<open>?\<close>.\<close>

definition encode_ascii_replace :: "string \<Rightarrow> string" where
  "encode_ascii_replace s = map (\<lambda>c. if (of_char c :: nat) < 128 then c else CHR ''?'') s"

text \<open>
  The values the two target sets hold. \<^verbatim>\<open>encode\<close> returns a \<^verbatim>\<open>bytes\<close> object, and in
  Python 3 (the program uses f-strings and \<^verbatim>\<open>:=\<close>) a \<^verbatim>\<open>bytes\<close> object is never
  \<^verbatim>\<open>==\<close> to a \<^verbatim>\<open>str\<close>: equality of \<open>pyval\<close> is Python's \<^verbatim>\<open>==\<close> on these values.
\<close>

datatype pyval = PyStr string | PyBytes string

text \<open>\<^verbatim>\<open>str(n)\<close> for a non-negative integer.\<close>

fun str_nat :: "nat \<Rightarrow> string" where
  "str_nat n =
     (if n < 10 then [char_of (48 + n)]
      else str_nat (n div 10) @ [char_of (48 + n mod 10)])"

declare str_nat.simps [simp del]

text \<open>\<^verbatim>\<open>s.replace(old, new)\<close> for a non-empty \<open>old\<close>, leftmost occurrences first.\<close>

function replace :: "string \<Rightarrow> string \<Rightarrow> string \<Rightarrow> string" where
  "replace old new [] = []"
| "replace old new (c # cs) =
     (if old \<noteq> [] \<and> prefix old (c # cs)
      then new @ replace old new (drop (length old) (c # cs))
      else c # replace old new cs)"
  by pat_completeness auto
termination
  by (relation "measure (\<lambda>(old, new, s). length s)") (auto simp: prefix_def)

text \<open>\<^verbatim>\<open>"\n".join(lines)\<close>.\<close>

fun join_lines :: "string list \<Rightarrow> string" where
  "join_lines [] = []"
| "join_lines [l] = l"
| "join_lines (l # m # ls) = l @ [CHR 0x0A] @ join_lines (m # ls)"

text \<open>\<^verbatim>\<open>os.path.basename\<close> and \<^verbatim>\<open>os.path.dirname\<close> (posixpath).\<close>

definition basename :: "string \<Rightarrow> string" where
  "basename p = rev (takeWhile (\<lambda>c. c \<noteq> CHR ''/'') (rev p))"

definition dirname :: "string \<Rightarrow> string" where
  "dirname p =
     (let head = rev (dropWhile (\<lambda>c. c \<noteq> CHR ''/'') (rev p))
      in if head \<noteq> [] \<and> filter (\<lambda>c. c \<noteq> CHR ''/'') head \<noteq> []
         then rev (dropWhile (\<lambda>c. c = CHR ''/'') (rev head))
         else head)"

text \<open>
  \<^verbatim>\<open>shlex.quote\<close>: the empty string is \<^verbatim>\<open>''\<close>; a string of safe characters
  (\<^verbatim>\<open>[a-zA-Z0-9_@%+=:,./-]\<close>) is itself; any other is put in single quotes, each single
  quote of it written \<^verbatim>\<open>'"'"'\<close>.
\<close>

definition safe_char :: "char \<Rightarrow> bool" where
  "safe_char c =
     (let n = (of_char c :: nat)
      in (48 \<le> n \<and> n \<le> 57) \<or> (65 \<le> n \<and> n \<le> 90) \<or> (97 \<le> n \<and> n \<le> 122)
         \<or> c \<in> set ''_@%+=:,./-'')"

definition shlex_quote :: "string \<Rightarrow> string" where
  "shlex_quote s =
     (if s = [] then [CHR 0x27, CHR 0x27]
      else if list_all safe_char s then s
      else [CHR 0x27]
           @ concat (map (\<lambda>c. if c = CHR 0x27
                               then [CHR 0x27, CHR 0x22, CHR 0x27, CHR 0x22, CHR 0x27]
                               else [c]) s)
           @ [CHR 0x27])"

subsection \<open>Python sets\<close>

text \<open>
  A set is a list without duplicates. The order in which a \<^verbatim>\<open>for\<close> loop visits a set
  of strings is decided by the interpreter's hashing: it is \<open>str_hash\<close> of the world,
  an arbitrary function, and the loop visits the elements in the order of their hashes.
\<close>

definition py_set :: "'a list \<Rightarrow> 'a list" where
  "py_set xs = remdups xs"

definition set_iter :: "('a \<Rightarrow> nat) \<Rightarrow> 'a list \<Rightarrow> 'a list" where
  "set_iter h s = sort_key h s"

subsection \<open>Calls, events and the world\<close>

datatype error = GithubException | ReError | IndexError | KeyError | TypeError

datatype level = Warning | Critical

text \<open>
  The calls \<^verbatim>\<open>cherryPickPr\<close> makes on the forge and on git, with their arguments. A git
  command that acts on the working copy carries, first, the branch that is checked out
  when it runs. \<open>CreatePull\<close> has the title, the body, the head and the base; the calls on
  the new pull request (\<open>PullAddToLabels\<close>, \<open>PullGetLabels\<close>) name it by its base branch.
  \<open>GetLabels\<close>, \<open>GetFiles\<close>, \<open>SetLabels\<close>, \<open>AddToLabels\<close> and \<open>CreateIssueComment\<close> act on
  the originating pull request; \<open>IssueAddToLabels\<close> acts on the issue just created.
\<close>

datatype api_call =
    GetCommit string
  | GitShow string
  | GetPull nat
  | GetUser string
  | GetCommits string
  | GetLabels
  | GetFiles
  | SetLabels "string list"
  | GetBranch string
  | CreateGitRef string string
  | Merge string string
  | GitFetch string
  | GitCheckout string
  | GitCherryPick string string
  | GitCommitAmend string string string
  | GitPush string
  | GitCherryPickAbort string
  | CreatePull string string string string
  | PullAddToLabels string string
  | PullGetLabels string
  | AddToLabels string
  | CreateIssue string string string
  | IssueAddToLabels string
  | CreateIssueComment "string list" "(string \<times> string \<times> string) list" "nat option"

text \<open>
  An event is a call with its outcome (\<open>True\<close>: no \<^verbatim>\<open>GithubException\<close>, exit status 0),
  or a message logged at level warning or critical (debug and info messages are left out).
\<close>

datatype event = Call api_call bool | Log level string

text \<open>
  What a \<^verbatim>\<open>GithubException\<close> carries in \<^verbatim>\<open>e.data\<close>: a dictionary with a \<^verbatim>\<open>"message"\<close>, a
  dictionary without one (the forge answered with a body that is not JSON), or \<^verbatim>\<open>None\<close>
  (an empty body). Most handlers of the program evaluate \<^verbatim>\<open>e.data["message"]\<close> for their
  log line: without a message that expression raises \<^verbatim>\<open>KeyError\<close>, without data
  \<^verbatim>\<open>TypeError\<close>, and the exception leaves the handler.
\<close>

datatype gh_data = Message | NoMessage | NoData

fun message_error :: "gh_data \<Rightarrow> error option" where
  "message_error Message = None"
| "message_error NoMessage = Some KeyError"
| "message_error NoData = Some TypeError"

type_synonym regex_engine = "string \<Rightarrow> (string \<Rightarrow> bool) option"

text \<open>
  The world answers the calls; \<open>exc_data\<close> is the data of the exception of a forge call that
  fails. \<open>re_compile\<close> is \<^verbatim>\<open>re.compile\<close> followed by
  \<^verbatim>\<open>Pattern.match\<close>: \<open>None\<close> for a pattern that raises \<^verbatim>\<open>re.error\<close>, else whether a
  string matches the pattern at its start. The fields \<open>pr_title\<close>, \<open>pr_release_notes\<close> and
  \<open>pr_original_author\<close> are the values lines 202-227 extract from the pull request
  (the title without its bracketed prefix, the release notes block, the original author);
  \<open>show_pr_iid\<close> is the number that line 185 finds in the output of \<^verbatim>\<open>git show\<close>;
  \<open>author_commit\<close> is the name and the e-mail address of the author's first commit, \<open>None\<close>
  when there is no such commit and line 220 raises \<^verbatim>\<open>IndexError\<close>. A call gets the same
  answer whenever it is made; the only calls the program repeats are the two fetches,
  whose exit status it ignores.
\<close>

record world =
  api_ok :: "api_call \<Rightarrow> bool"
  exc_data :: "api_call \<Rightarrow> gh_data"
  re_compile :: regex_engine
  str_hash :: "string \<Rightarrow> nat"
  commit_sha :: string
  show_pr_iid :: "nat option"
  pr_title :: string
  pr_release_notes :: string
  pr_original_author :: string
  pr_html_url :: string
  author_commit :: "(string \<times> string) option"
  pr_label_names :: "string list"
  pr_files :: "string list"
  branch_tip :: "string \<Rightarrow> string"
  issue_number :: nat

text \<open>The arguments of \<^verbatim>\<open>cherryPickPr\<close>.\<close>

record config =
  merge_commit :: string
  source_branch :: string
  target_branch_rules :: "(string \<times> string list) list"
  strategy :: string
  project_name :: string
  pr_project_name :: string
  dry_run :: bool

definition call :: "world \<Rightarrow> api_call \<Rightarrow> event" where
  "call w c = Call c (api_ok w c)"

text \<open>
  The exception, if any, that \<^verbatim>\<open>e.data["message"]\<close> raises in the handler of the failed
  call \<open>c\<close>.
\<close>

definition message :: "world \<Rightarrow> api_call \<Rightarrow> error option" where
  "message w c = message_error (exc_data w c)"

subsection \<open>Labels (lines 246-274)\<close>

text \<open>
  The loop over the labels. Its state is \<open>(target_branches, target_branches_exclude,
  warnings)\<close>; the flag of the result says whether the loop left by the \<^verbatim>\<open>return\<close> of
  line 253.
\<close>

definition sweep_from :: "string \<Rightarrow> pyval list \<Rightarrow> pyval list" where
  "sweep_from label target_branches_exclude =
     (if prefix ''sweep:from '' label
      then (case split CHR '' '' label of
              [s0, s1] \<Rightarrow> List.insert (PyBytes (encode_ascii_replace s1)) target_branches_exclude
            | _ \<Rightarrow> target_branches_exclude)
      else target_branches_exclude)"

definition also_targeting :: "string \<Rightarrow> string list \<times> event list \<Rightarrow> string list \<times> event list" where
  "also_targeting label acc =
     (if prefix ''alsoTargeting:'' label
      then (case split CHR '':'' label of
              [s0, s1] \<Rightarrow> (List.insert s1 (fst acc), snd acc)
            | _ \<Rightarrow> (fst acc, snd acc @ [Log Warning ''has empty 'alsoTargeting:' label -> ignore'']))
      else acc)"

fun sweep_labels ::
  "string list \<Rightarrow> string list \<times> pyval list \<times> event list
     \<Rightarrow> bool \<times> string list \<times> pyval list \<times> event list" where
  "sweep_labels [] acc = (False, acc)"
| "sweep_labels (label # labels) (target_branches, target_branches_exclude, warnings) =
     (if prefix ''sweptFrom:'' label
      then (True, target_branches, target_branches_exclude, warnings)
      else (let excl = sweep_from label target_branches_exclude;
                (tb, ws) = also_targeting label (target_branches, warnings)
            in sweep_labels labels (tb, excl, ws)))"

subsection \<open>Rules (lines 281-290)\<close>

text \<open>
  The loop over the rule table, a dictionary visited in the order of its entries. A
  pattern that does not compile raises \<^verbatim>\<open>re.error\<close>; nothing catches it.
\<close>

fun rule_targets ::
  "regex_engine \<Rightarrow> (string \<times> string list) list \<Rightarrow> string list \<Rightarrow> string list
     \<Rightarrow> error + string list" where
  "rule_targets re [] affected_packages target_branches = Inr target_branches"
| "rule_targets re ((rule, branches) # rules) affected_packages target_branches =
     (case re rule of
        None \<Rightarrow> Inl ReError
      | Some pkg_pattern \<Rightarrow>
          (if affected_packages \<noteq> [] \<and> list_all pkg_pattern affected_packages
           then rule_targets re rules affected_packages (List.union branches target_branches)
           else rule_targets re rules affected_packages target_branches))"

subsection \<open>The change record (lines 172-230)\<close>

text \<open>The local variables that the rest of \<^verbatim>\<open>cherryPickPr\<close> reads.\<close>

record change =
  PR_IID :: nat
  orig_pr_title :: string
  release_notes :: string
  original_pr_author :: string
  pr_author :: string
  sha :: string

text \<open>
  How a part of the function ends: it goes on with a value, it returns, or it raises an
  exception that nothing catches.
\<close>

datatype 'a flow = Continue 'a | Return | Raise error

definition get_change :: "world \<Rightarrow> config \<Rightarrow> event list \<times> change flow" where
  "get_change w cfg =
     (let mc = merge_commit cfg; e1 = call w (GetCommit mc) in
      if \<not> api_ok w (GetCommit mc)
      then (case message w (GetCommit mc) of
              Some e \<Rightarrow> ([e1], Raise e)
            | None \<Rightarrow> ([e1, Log Critical ''failed to get merge commit''], Return))
      else
        let e2 = call w (GitShow mc) in
        (case show_pr_iid w of
           None \<Rightarrow> ([e1, e2, Log Critical ''failed to determine PR IID''], Return)
         | Some iid \<Rightarrow>
             let e3 = call w (GetPull iid) in
             if \<not> api_ok w (GetPull iid)
             then ([e1, e2, e3, Log Critical ''failed to retrieve GitHub pull request handle''],
                   Return)
             else
               let author = pr_original_author w; e4 = call w (GetUser author) in
               if \<not> api_ok w (GetUser author) then ([e1, e2, e3, e4], Raise GithubException)
               else
                 let e5 = call w (GetCommits author) in
                 if \<not> api_ok w (GetCommits author)
                 then ([e1, e2, e3, e4, e5], Raise GithubException)
                 else
                   (case author_commit w of
                      None \<Rightarrow> ([e1, e2, e3, e4, e5], Raise IndexError)
                    | Some (name, email) \<Rightarrow>
                        let e6 = call w GetLabels in
                        if \<not> api_ok w GetLabels
                        then ([e1, e2, e3, e4, e5, e6], Raise GithubException)
                        else ([e1, e2, e3, e4, e5, e6],
                              Continue \<lparr>PR_IID = iid, orig_pr_title = pr_title w,
                                release_notes = pr_release_notes w,
                                original_pr_author = author,
                                pr_author = name @ '' <'' @ email @ ''>'',
                                sha = commit_sha w\<rparr>))))"

subsection \<open>Target branches and disposition (lines 230-305)\<close>

text \<open>\<^verbatim>\<open>listChangedPackages\<close>: the set of the changed files' names.\<close>

definition listChangedPackages :: "world \<Rightarrow> string list" where
  "listChangedPackages w = py_set (pr_files w)"

text \<open>
  The result is the label set with the disposition added, the target branches and the
  excluded values.
\<close>

definition compose ::
  "world \<Rightarrow> config \<Rightarrow> event list \<times> (string list \<times> string list \<times> pyval list) flow" where
  "compose w cfg =
     (let labels = py_set (pr_label_names w) in
      if ''sweep:done'' \<in> set labels then ([], Return)
      else if ''sweep:ignore'' \<in> set labels then ([], Return)
      else
        (case sweep_labels (set_iter (str_hash w) labels) ([], [], []) of
           (True, tb, excl, ws) \<Rightarrow> (ws, Return)
         | (False, tb, excl, ws) \<Rightarrow>
             if \<not> api_ok w GetFiles then (ws @ [call w GetFiles], Raise GithubException)
             else
               (case rule_targets (re_compile w) (target_branch_rules cfg)
                       (listChangedPackages w) tb of
                  Inl e \<Rightarrow> (ws @ [call w GetFiles], Raise e)
                | Inr target_branches \<Rightarrow>
                    (ws @ [call w GetFiles],
                     Continue
                       (List.insert
                          (if length target_branches = 0 then ''sweep:ignore'' else ''sweep:done'')
                          labels,
                        target_branches, excl)))))"

subsection \<open>Publishing to one branch (lines 314-463)\<close>

record sweep_state =
  trace :: "event list"
  good_branches :: "string list"
  failed_branches :: "(string \<times> string \<times> string) list"

definition emit :: "event list \<Rightarrow> sweep_state \<Rightarrow> sweep_state" where
  "emit evs st = st\<lparr>trace := trace st @ evs\<rparr>"

text \<open>The loop of lines 317-320.\<close>

fun tbranch_excluded :: "pyval list \<Rightarrow> string \<Rightarrow> bool" where
  "tbranch_excluded [] tbranch = False"
| "tbranch_excluded (t_excl # rest) tbranch =
     (if t_excl = PyStr tbranch then True else tbranch_excluded rest tbranch)"

definition cherry_pick_branch :: "string \<Rightarrow> string \<Rightarrow> string" where
  "cherry_pick_branch mc tbranch = ''cherry-pick-2-'' @ mc @ ''-'' @ tbranch"

definition new_pr_title :: "change \<Rightarrow> string \<Rightarrow> string" where
  "new_pr_title ch tbranch =
     ''[sweep:'' @ replace ''rel-'' [] tbranch @ ''] '' @ orig_pr_title ch"

definition body_text :: "change \<Rightarrow> string \<Rightarrow> string" where
  "body_text ch tbranch =
     ''Sweep #'' @ str_nat (PR_IID ch) @ '' `'' @ orig_pr_title ch @ ''` to `'' @ tbranch
     @ ''`.'' @ [CHR 0x0A, CHR 0x0A]
     @ ''Adding original author @'' @ original_pr_author ch @ '' as watcher.''
     @ [CHR 0x0A, CHR 0x0A]
     @ release_notes ch"

definition failed_body_text :: "change \<Rightarrow> string \<Rightarrow> string" where
  "failed_body_text ch tbranch =
     body_text ch tbranch @ [CHR 0x0A] @ ''Closes #@@@FAILED_ISSUE_ID@@@''"

definition fixer_instructions :: "config \<Rightarrow> change \<Rightarrow> string \<Rightarrow> string list" where
  "fixer_instructions cfg ch tbranch =
     (let mc = merge_commit cfg; cpb = cherry_pick_branch mc tbranch in
      [''cherry-pick '' @ mc @ '' into '' @ tbranch @ '' failed'',
       ''check merge conflicts on a local copy of this repository'',
       ''```bash'',
       ''git fetch upstream'',
       ''git checkout upstream/'' @ shlex_quote tbranch @ '' -b '' @ shlex_quote cpb,
       ''git cherry-pick -x -m 1 '' @ shlex_quote mc,
       ''# Fix the conflicts'',
       ''git cherry-pick --continue'',
       ''git commit --amend -m ''
         @ shlex_quote (''sweep: #'' @ str_nat (PR_IID ch) @ '' '' @ orig_pr_title ch)
         @ '' --author='' @ shlex_quote (pr_author ch),
       ''git push -u origin '' @ shlex_quote cpb,
       [],
       ''# If you have the GitHub CLI installed the PR can be made with'',
       ''gh pr create '' @ [CHR 0x5C],
       ''     --label '' @ shlex_quote (''sweep:from '' @ basename (source_branch cfg))
         @ '' '' @ [CHR 0x5C],
       ''     --base '' @ shlex_quote tbranch @ '' '' @ [CHR 0x5C],
       ''     --repo '' @ shlex_quote (project_name cfg) @ '' '' @ [CHR 0x5C],
       ''     --title '' @ shlex_quote (new_pr_title ch tbranch) @ '' '' @ [CHR 0x5C],
       ''     --body '' @ shlex_quote (failed_body_text ch tbranch),
       ''```''])"

definition open_pr_failed_text :: "config \<Rightarrow> string \<Rightarrow> string" where
  "open_pr_failed_text cfg tbranch =
     ''Failed to open the PR, try to open a PR from ''
     @ dirname (pr_project_name cfg) @ '':'' @ cherry_pick_branch (merge_commit cfg) tbranch
     @ '' to '' @ tbranch"

text \<open>
  Lines 329-342: the new branch at the tip of the target branch. The result is the
  events and either the value of \<^verbatim>\<open>failed\<close> or the exception that leaves the handler.
\<close>

definition create_ref :: "world \<Rightarrow> config \<Rightarrow> string \<Rightarrow> event list \<times> (error + bool)" where
  "create_ref w cfg tbranch =
     (let cpb = cherry_pick_branch (merge_commit cfg) tbranch;
          gb = GetBranch tbranch;
          cr = CreateGitRef (''refs/heads/'' @ cpb) (branch_tip w tbranch) in
      if \<not> api_ok w gb then
        (case message w gb of
           Some e \<Rightarrow> ([call w gb], Inl e)
         | None \<Rightarrow> ([call w gb, Log Critical ''failed to create remote branch''], Inr True))
      else if \<not> api_ok w cr then
        (case message w cr of
           Some e \<Rightarrow> ([call w gb, call w cr], Inl e)
         | None \<Rightarrow>
             ([call w gb, call w cr, Log Critical ''failed to create remote branch''], Inr True))
      else ([call w gb, call w cr], Inr False))"

text \<open>Lines 344-383: the merge or the cherry-pick, by the strategy.\<close>

definition apply_strategy ::
  "world \<Rightarrow> config \<Rightarrow> change \<Rightarrow> string \<Rightarrow> event list \<times> (error + bool)" where
  "apply_strategy w cfg ch tbranch =
     (let cpb = cherry_pick_branch (merge_commit cfg) tbranch in
      if strategy cfg = ''merge'' then
        (let mg = Merge cpb (sha ch) in
         if api_ok w mg then ([call w mg], Inr False)
         else (case message w mg of
                 Some e \<Rightarrow> ([call w mg], Inl e)
               | None \<Rightarrow> ([call w mg, Log Critical ''failed to merge merge commit''], Inr True)))
      else if strategy cfg = ''cherry-pick'' then
        (let pick = GitCherryPick cpb (sha ch);
             amend = GitCommitAmend cpb
                       (''sweep: #'' @ str_nat (PR_IID ch) @ '' '' @ orig_pr_title ch)
                       (pr_author ch);
             pre = [call w (GitFetch ''upstream''), call w (GitFetch ''origin''),
                    call w (GitCheckout cpb), call w pick] in
         if api_ok w pick then
           (if \<not> api_ok w amend
            then (pre @ [call w amend, Log Critical ''edit commit message''], Inr True)
            else if \<not> api_ok w (GitPush cpb)
            then (pre @ [call w amend, call w (GitPush cpb), Log Critical ''failed to push''],
                  Inr True)
            else (pre @ [call w amend, call w (GitPush cpb)], Inr False))
         else (pre @ [Log Critical ''failed to cherry pick merge commit'',
                      call w (GitCherryPickAbort cpb)], Inr True))
      else ([Log Critical ''invalid strategy! Choose merge or cheery-pick for strategy''],
            Inr True))"

text \<open>
  Lines 420-463: the pull request and its label, when \<^verbatim>\<open>failed\<close> is false. The second
  component is an exception that leaves the function. The handler of line 431 evaluates
  the message before it adds the branch to the failed set.
\<close>

definition open_request ::
  "world \<Rightarrow> config \<Rightarrow> change \<Rightarrow> string \<Rightarrow> sweep_state \<Rightarrow> sweep_state \<times> error option" where
  "open_request w cfg ch tbranch st =
     (let mc = merge_commit cfg;
          cp = CreatePull (new_pr_title ch tbranch) (body_text ch tbranch)
                 (dirname (pr_project_name cfg) @ '':'' @ cherry_pick_branch mc tbranch)
                 tbranch in
      if \<not> api_ok w cp then
        (case message w cp of
           Some e \<Rightarrow> (emit [call w cp] st, Some e)
         | None \<Rightarrow>
             ((emit [call w cp, Log Critical ''failed to create pull request''] st)
                \<lparr>failed_branches :=
                   List.insert (tbranch, mc, open_pr_failed_text cfg tbranch)
                     (failed_branches st)\<rparr>,
              None))
      else
        (let st2 = (emit [call w cp] st)
                     \<lparr>good_branches := List.insert tbranch (good_branches st)\<rparr>;
             lb = PullAddToLabels tbranch (''sweep:from '' @ basename (source_branch cfg)) in
         if \<not> api_ok w lb then (emit [call w lb] st2, Some GithubException)
         else if \<not> api_ok w (PullGetLabels tbranch)
         then (emit [call w lb, call w (PullGetLabels tbranch)] st2, Some GithubException)
         else (emit [call w lb, call w (PullGetLabels tbranch)] st2, None)))"

text \<open>One pass of the loop body for a branch that is not excluded.\<close>

definition publish_branch ::
  "world \<Rightarrow> config \<Rightarrow> change \<Rightarrow> string \<Rightarrow> sweep_state \<Rightarrow> sweep_state \<times> error option" where
  "publish_branch w cfg ch tbranch st =
     (case create_ref w cfg tbranch of
        (evs1, Inl e) \<Rightarrow> (emit evs1 st, Some e)
      | (evs1, Inr failed1) \<Rightarrow>
          (case (if failed1 then ([], Inr True) else apply_strategy w cfg ch tbranch) of
             (evs2, Inl e) \<Rightarrow> (emit (evs1 @ evs2) st, Some e)
           | (evs2, Inr failed) \<Rightarrow>
               (let st1 = emit (evs1 @ evs2) st in
                if failed then
                  (let text = join_lines (fixer_instructions cfg ch tbranch) in
                   ((emit [Log Critical text] st1)
                      \<lparr>failed_branches :=
                         List.insert (tbranch, merge_commit cfg, text) (failed_branches st1)\<rparr>,
                    None))
                else open_request w cfg ch tbranch st1)))"

text \<open>The loop of line 314 over the target branches, in the order the set gives them.\<close>

fun publish_loop ::
  "world \<Rightarrow> config \<Rightarrow> change \<Rightarrow> pyval list \<Rightarrow> string list \<Rightarrow> sweep_state
     \<Rightarrow> sweep_state \<times> error option" where
  "publish_loop w cfg ch excl [] st = (st, None)"
| "publish_loop w cfg ch excl (tbranch # rest) st =
     (if tbranch_excluded excl tbranch then publish_loop w cfg ch excl rest st
      else (case publish_branch w cfg ch tbranch st of
              (st', Some e) \<Rightarrow> (st', Some e)
            | (st', None) \<Rightarrow> publish_loop w cfg ch excl rest st'))"

subsection \<open>The sweep summary (lines 465-512)\<close>

text \<open>
  The body of the \<^verbatim>\<open>try\<close> of line 490; the second component is the call that raised
  \<^verbatim>\<open>GithubException\<close>. The text of the comment is not rendered: the
  call carries the branches it lists and the issue number written into it. After the loop
  of line 481 the name \<^verbatim>\<open>failed_branches\<close> is bound to the text of the last failure, a
  non-empty string, so the test of line 493 is the test of line 479.
\<close>

definition summary_body :: "world \<Rightarrow> change \<Rightarrow> sweep_state \<Rightarrow> event list \<times> api_call option" where
  "summary_body w ch st =
     (let issue_title = ''Sweep failed for PR '' @ orig_pr_title ch;
          ci = CreateIssue issue_title (issue_title @ [CHR 0x0A] @ ''See '' @ pr_html_url w)
                 (original_pr_author ch);
          il = IssueAddToLabels ''sweep:failed'';
          cc = CreateIssueComment (good_branches st) (failed_branches st)
                 (if failed_branches st \<noteq> [] then Some (issue_number w) else None) in
      if failed_branches st \<noteq> [] then
        (if \<not> api_ok w ci then ([call w ci], Some ci)
         else if \<not> api_ok w il then ([call w ci, call w il], Some il)
         else ([call w ci, call w il, call w cc], if api_ok w cc then None else Some cc))
      else ([call w cc], if api_ok w cc then None else Some cc))"

text \<open>
  The \<^verbatim>\<open>try\<close> with its handler (lines 506-511), which catches the \<^verbatim>\<open>GithubException\<close> and
  formats its message into the log line.
\<close>

definition post_summary :: "world \<Rightarrow> change \<Rightarrow> sweep_state \<Rightarrow> sweep_state \<times> error option" where
  "post_summary w ch st =
     (case summary_body w ch st of
        (evs, None) \<Rightarrow> (emit evs st, None)
      | (evs, Some c) \<Rightarrow>
          (case message w c of
             None \<Rightarrow>
               (emit (evs @ [Log Critical ''failed to add comment with sweep summary'']) st,
                None)
           | Some e \<Rightarrow> (emit evs st, Some e)))"

definition sweep_report ::
  "world \<Rightarrow> change \<Rightarrow> string list \<Rightarrow> sweep_state \<Rightarrow> sweep_state \<times> error option" where
  "sweep_report w ch target_branches st =
     (if length target_branches > 0 then
        (if failed_branches st \<noteq> [] then
           (if \<not> api_ok w (AddToLabels ''sweep:failed'')
            then (emit [call w (AddToLabels ''sweep:failed'')] st, Some GithubException)
            else post_summary w ch (emit [call w (AddToLabels ''sweep:failed'')] st))
         else post_summary w ch st)
      else (st, None))"

subsection \<open>\<^verbatim>\<open>cherryPickPr\<close>\<close>

definition start :: "event list \<Rightarrow> sweep_state" where
  "start evs = \<lparr>trace = evs, good_branches = [], failed_branches = []\<rparr>"

text \<open>Lines 307-512, once the targets are known.\<close>

definition sweep ::
  "world \<Rightarrow> config \<Rightarrow> change \<Rightarrow> string list \<times> string list \<times> pyval list \<Rightarrow> event list
     \<Rightarrow> sweep_state \<times> error option" where
  "sweep w cfg ch plan evs =
     (case plan of (labels, target_branches, excl) \<Rightarrow>
        if dry_run cfg then (start evs, None)
        else if \<not> api_ok w (SetLabels labels)
        then (start (evs @ [call w (SetLabels labels)]), Some GithubException)
        else
          (case publish_loop w cfg ch excl (set_iter (str_hash w) target_branches)
                  (start (evs @ [call w (SetLabels labels)])) of
             (st, Some e) \<Rightarrow> (st, Some e)
           | (st, None) \<Rightarrow> sweep_report w ch target_branches st))"

definition cherryPickPr :: "world \<Rightarrow> config \<Rightarrow> sweep_state \<times> error option" where
  "cherryPickPr w cfg =
     (case get_change w cfg of
        (evs, Return) \<Rightarrow> (start evs, None)
      | (evs, Raise e) \<Rightarrow> (start evs, Some e)
      | (evs, Continue ch) \<Rightarrow>
          (case compose w cfg of
             (evs', Return) \<Rightarrow> (start (evs @ evs'), None)
           | (evs', Raise e) \<Rightarrow> (start (evs @ evs'), Some e)
           | (evs', Continue plan) \<Rightarrow> sweep w cfg ch plan (evs @ evs')))"

subsection \<open>A regular expression engine for the examples\<close>

text \<open>
  The theorems hold for every \<open>re_compile\<close>. The examples need one: \<open>re_fragment\<close> is
  Python's \<^verbatim>\<open>re\<close> on the patterns made of ordinary characters, \<^verbatim>\<open>.\<close>, a postfix
  \<^verbatim>\<open>*\<close> and a leading \<^verbatim>\<open>^\<close>, matched at the start of the string as
  \<^verbatim>\<open>Pattern.match\<close> does. A \<^verbatim>\<open>*\<close> with nothing to repeat and an unmatched
  parenthesis are rejected, as \<^verbatim>\<open>re.compile\<close> rejects them with \<^verbatim>\<open>re.error\<close>; the other
  patterns with metacharacters are outside the fragment and no example uses them.
\<close>

datatype atom = AnyChar | Lit char

fun atom_ok :: "atom \<Rightarrow> char \<Rightarrow> bool" where
  "atom_ok AnyChar c = (c \<noteq> CHR 0x0A)"
| "atom_ok (Lit a) c = (a = c)"

fun match_items :: "(atom \<times> bool) list \<Rightarrow> string \<Rightarrow> bool" where
  "match_items [] s = True"
| "match_items ((a, False) # r) [] = False"
| "match_items ((a, False) # r) (c # cs) = (atom_ok a c \<and> match_items r cs)"
| "match_items ((a, True) # r) [] = match_items r []"
| "match_items ((a, True) # r) (c # cs) =
     (match_items r (c # cs) \<or> (atom_ok a c \<and> match_items ((a, True) # r) cs))"

definition metachar :: "char \<Rightarrow> bool" where
  "metachar c = (c \<in> set ''.^$*+?{}[]()|'' \<or> c = CHR 0x5C)"

fun parse_items :: "string \<Rightarrow> (atom \<times> bool) list option" where
  "parse_items [] = Some []"
| "parse_items (c # cs) =
     (if metachar c \<and> c \<noteq> CHR ''.'' then None
      else
        (let a = (if c = CHR ''.'' then AnyChar else Lit c) in
         case cs of
           [] \<Rightarrow> Some [(a, False)]
         | d # ds \<Rightarrow>
             if d = CHR ''*'' then map_option (\<lambda>r. (a, True) # r) (parse_items ds)
             else map_option (\<lambda>r. (a, False) # r) (parse_items cs)))"

definition re_fragment :: regex_engine where
  "re_fragment p =
     map_option match_items
       (parse_items (case p of [] \<Rightarrow> [] | c # cs \<Rightarrow> if c = CHR ''^'' then cs else p))"

subsection \<open>What the specification says the targets are\<close>

text \<open>
  The specification's target plan, in its own words: a label \<^verbatim>\<open>alsoTargeting:B\<close> with a
  well-formed \<open>B\<close> (not empty, no further colon) includes \<open>B\<close>; a label \<^verbatim>\<open>sweep:from B\<close>
  excludes \<open>B\<close>; a rule gives its branches when there is a changed path and every changed
  path matches its pattern; the final targets are the rule-derived and the included
  branches that are not excluded.
\<close>

definition spec_inclusion :: "string list \<Rightarrow> string list" where
  "spec_inclusion labels =
     [drop 14 l. l \<leftarrow> labels, prefix ''alsoTargeting:'' l, drop 14 l \<noteq> [],
                 CHR '':'' \<notin> set (drop 14 l)]"

definition spec_exclusion :: "string list \<Rightarrow> string list" where
  "spec_exclusion labels = [drop 11 l. l \<leftarrow> labels, prefix ''sweep:from '' l]"

definition spec_rule_derived ::
  "regex_engine \<Rightarrow> (string \<times> string list) list \<Rightarrow> string list \<Rightarrow> string list" where
  "spec_rule_derived re rules paths =
     concat [branches. (rule, branches) \<leftarrow> rules,
               (case re rule of None \<Rightarrow> False | Some m \<Rightarrow> paths \<noteq> [] \<and> list_all m paths)]"

definition spec_final_targets ::
  "regex_engine \<Rightarrow> (string \<times> string list) list \<Rightarrow> string list \<Rightarrow> string list \<Rightarrow> string set" where
  "spec_final_targets re rules paths labels =
     (set (spec_rule_derived re rules paths) \<union> set (spec_inclusion labels))
     - set (spec_exclusion labels)"

subsection \<open>Reading a trace\<close>

text \<open>The calls that only read: they change nothing on the forge or in the working copy.\<close>

fun retrieval :: "event \<Rightarrow> bool" where
  "retrieval (Log lv msg) = True"
| "retrieval (Call (GetCommit mc) ok) = True"
| "retrieval (Call (GitShow mc) ok) = True"
| "retrieval (Call (GetPull iid) ok) = True"
| "retrieval (Call (GetUser u) ok) = True"
| "retrieval (Call (GetCommits u) ok) = True"
| "retrieval (Call GetLabels ok) = True"
| "retrieval (Call GetFiles ok) = True"
| "retrieval (Call c ok) = False"

fun is_set_labels :: "event \<Rightarrow> bool" where
  "is_set_labels (Call (SetLabels ls) ok) = True"
| "is_set_labels e = False"

text \<open>
  The labels of the originating pull request after a run: \<^verbatim>\<open>set_labels\<close> replaces
  them, \<^verbatim>\<open>add_to_labels\<close> adds one; a call that failed changes nothing.
\<close>

fun labels_after :: "string list \<Rightarrow> event list \<Rightarrow> string list" where
  "labels_after ls [] = ls"
| "labels_after ls (Call (SetLabels new) True # evs) = labels_after new evs"
| "labels_after ls (Call (AddToLabels l) True # evs) = labels_after (List.insert l ls) evs"
| "labels_after ls (e # evs) = labels_after ls evs"

fun is_log :: "event \<Rightarrow> bool" where
  "is_log (Log lv msg) = True"
| "is_log (Call c ok) = False"

text \<open>The events of the publish loop and those of the sweep summary.\<close>

fun publish_call :: "api_call \<Rightarrow> bool" where
  "publish_call (GetBranch b) = True"
| "publish_call (CreateGitRef r s) = True"
| "publish_call (Merge b s) = True"
| "publish_call (GitFetch r) = True"
| "publish_call (GitCheckout b) = True"
| "publish_call (GitCherryPick b s) = True"
| "publish_call (GitCommitAmend b m a) = True"
| "publish_call (GitPush b) = True"
| "publish_call (GitCherryPickAbort b) = True"
| "publish_call (CreatePull t b h base) = True"
| "publish_call (PullAddToLabels base l) = True"
| "publish_call (PullGetLabels base) = True"
| "publish_call c = False"

fun publish_event :: "event \<Rightarrow> bool" where
  "publish_event (Log lv msg) = True"
| "publish_event (Call c ok) = publish_call c"

fun summary_call :: "api_call \<Rightarrow> bool" where
  "summary_call (CreateIssue t b a) = True"
| "summary_call (IssueAddToLabels l) = True"
| "summary_call (CreateIssueComment g f n) = True"
| "summary_call c = False"

fun report_event :: "event \<Rightarrow> bool" where
  "report_event (Log lv msg) = True"
| "report_event (Call (AddToLabels l) ok) = True"
| "report_event (Call c ok) = summary_call c"

text \<open>
  The steps of publishing to one branch, in their order: the new ref (1), the merge or
  the cherry-pick (2), the amended commit (3), the push (4), the pull request (5) and
  its label (6). The fetches, the checkout and the abort of a cherry-pick belong to step
  2; the program ignores their exit status.
\<close>

fun step_of :: "api_call \<Rightarrow> nat" where
  "step_of (GetBranch b) = 1"
| "step_of (CreateGitRef r s) = 1"
| "step_of (Merge b s) = 2"
| "step_of (GitFetch r) = 2"
| "step_of (GitCheckout b) = 2"
| "step_of (GitCherryPick b s) = 2"
| "step_of (GitCherryPickAbort b) = 2"
| "step_of (GitCommitAmend b m a) = 3"
| "step_of (GitPush b) = 4"
| "step_of (CreatePull t b h base) = 5"
| "step_of (PullAddToLabels base l) = 6"
| "step_of (PullGetLabels base) = 6"
| "step_of c = 0"

fun event_step :: "event \<Rightarrow> nat" where
  "event_step (Log lv msg) = 0"
| "event_step (Call c ok) = step_of c"

text \<open>
  The calls of one pass whose failure the program tests, in the order in which it makes
  them: the tip of the target branch and the new ref, then the merge or the cherry-pick,
  the amended commit and the push, then the pull request (with a strategy that is
  neither, the pass ends after the new ref). The git commands among them fail by their
  exit status and raise nothing.
\<close>

definition tested_calls :: "world \<Rightarrow> config \<Rightarrow> change \<Rightarrow> string \<Rightarrow> api_call list" where
  "tested_calls w cfg ch tbranch =
     (let mc = merge_commit cfg; cpb = cherry_pick_branch mc tbranch;
          cp = CreatePull (new_pr_title ch tbranch) (body_text ch tbranch)
                 (dirname (pr_project_name cfg) @ '':'' @ cpb) tbranch in
      [GetBranch tbranch, CreateGitRef (''refs/heads/'' @ cpb) (branch_tip w tbranch)]
      @ (if strategy cfg = ''merge'' then [Merge cpb (sha ch), cp]
         else if strategy cfg = ''cherry-pick'' then
           [GitCherryPick cpb (sha ch),
            GitCommitAmend cpb (''sweep: #'' @ str_nat (PR_IID ch) @ '' '' @ orig_pr_title ch)
              (pr_author ch),
            GitPush cpb, cp]
         else []))"


text \<open>The events of one pass of the publish loop.\<close>

definition publish_events :: "world \<Rightarrow> config \<Rightarrow> change \<Rightarrow> string \<Rightarrow> event list" where
  "publish_events w cfg ch tbranch = trace (fst (publish_branch w cfg ch tbranch (start [])))"

definition open_request_events :: "world \<Rightarrow> config \<Rightarrow> change \<Rightarrow> string \<Rightarrow> event list" where
  "open_request_events w cfg ch tbranch =
     trace (fst (open_request w cfg ch tbranch (start [])))"

text \<open>
  A pull request was opened into \<open>tbranch\<close>; the branches of the failed set.
\<close>

fun pull_for :: "string \<Rightarrow> event \<Rightarrow> bool" where
  "pull_for tbranch (Call (CreatePull t b h base) True) = (base = tbranch)"
| "pull_for tbranch e = False"

definition failed_names :: "sweep_state \<Rightarrow> string set" where
  "failed_names st = fst ` set (failed_branches st)"

fun is_bytes :: "pyval \<Rightarrow> bool" where
  "is_bytes (PyBytes b) = True"
| "is_bytes (PyStr s) = False"

text \<open>The calls of a trace, in order.\<close>

fun calls_of :: "event list \<Rightarrow> api_call list" where
  "calls_of [] = []"
| "calls_of (Call c ok # evs) = c # calls_of evs"
| "calls_of (Log lv msg # evs) = calls_of evs"

text \<open>The branches that the labels include, as the loop over the labels computes them.\<close>

definition explicit_targets :: "world \<Rightarrow> string list" where
  "explicit_targets w =
     fst (snd (sweep_labels (set_iter (str_hash w) (py_set (pr_label_names w))) ([], [], [])))"

subsection \<open>Example worlds\<close>

text \<open>
  A forge on which every call succeeds, for a pull request 42 with the given labels and
  changed files, merged as commit \<^verbatim>\<open>abc1234\<close>; an error of this forge, in the worlds made
  from it by refusing a call, carries a message unless said otherwise; the interpreter
  visits a set in the order of the list that holds it.
\<close>

definition ok_world :: "string list \<Rightarrow> string list \<Rightarrow> world" where
  "ok_world labels files =
     \<lparr>api_ok = (\<lambda>c. True), exc_data = (\<lambda>c. Message), re_compile = re_fragment, str_hash = (\<lambda>s. 0),
      commit_sha = ''abc1234'', show_pr_iid = Some 42, pr_title = ''Fix X'',
      pr_release_notes = [], pr_original_author = ''alice'',
      pr_html_url = ''https://github.com/o/r/pull/42'',
      author_commit = Some (''Alice'', ''alice@example.org''),
      pr_label_names = labels, pr_files = files, branch_tip = (\<lambda>b. ''def5678''),
      issue_number = 7\<rparr>"

definition merge_config :: "(string \<times> string list) list \<Rightarrow> config" where
  "merge_config rules =
     \<lparr>merge_commit = ''abc1234'', source_branch = ''upstream/master'',
      target_branch_rules = rules, strategy = ''merge'', project_name = ''o/r'',
      pr_project_name = ''bot/r'', dry_run = False\<rparr>"

text \<open>The change record of that pull request, and a forge that refuses every merge.\<close>

definition example_change :: change where
  "example_change =
     \<lparr>PR_IID = 42, orig_pr_title = ''Fix X'', release_notes = [],
      original_pr_author = ''alice'', pr_author = ''Alice <alice@example.org>'',
      sha = ''abc1234''\<rparr>"

definition merge_fails_world :: "string list \<Rightarrow> string list \<Rightarrow> world" where
  "merge_fails_world labels files =
     (ok_world labels files)\<lparr>api_ok := (\<lambda>c. case c of Merge b s \<Rightarrow> False | _ \<Rightarrow> True)\<rparr>"

section \<open>Properties\<close>

lemmas model_defs = cherryPickPr_def get_change_def compose_def sweep_def sweep_report_def
  post_summary_def summary_body_def publish_branch_def open_request_def create_ref_def apply_strategy_def
  call_def message_def py_set_def set_iter_def listChangedPackages_def start_def emit_def
  sweep_from_def also_targeting_def cherry_pick_branch_def Let_def

lemmas example_defs = ok_world_def merge_config_def re_fragment_def metachar_def List.union_def
  example_change_def merge_fails_world_def

subsection \<open>Rule resolution\<close>

lemma rule_targets_set:
  "\<forall>r\<in>set rules. re (fst r) \<noteq> None \<Longrightarrow>
   \<exists>S. rule_targets re rules paths tb = Inr S \<and>
       set S = set tb \<union> {b. \<exists>r\<in>set rules. \<exists>m. re (fst r) = Some m \<and> paths \<noteq> []
                              \<and> list_all m paths \<and> b \<in> set (snd r)}"
proof (induction rules arbitrary: tb)
  case Nil
  then show ?case by simp
next
  case (Cons r rules)
  obtain rule branches where r: "r = (rule, branches)" by (cases r)
  from Cons.prems r obtain m where m: "re rule = Some m" by auto
  from Cons.prems have rest: "\<forall>r\<in>set rules. re (fst r) \<noteq> None" by simp
  show ?case
  proof (cases "paths \<noteq> [] \<and> list_all m paths")
    case True
    from Cons.IH [OF rest, of "List.union branches tb"] obtain S where
      S: "rule_targets re rules paths (List.union branches tb) = Inr S"
         "set S = set (List.union branches tb) \<union> {b. \<exists>r\<in>set rules. \<exists>m. re (fst r) = Some m \<and> paths \<noteq> []
                              \<and> list_all m paths \<and> b \<in> set (snd r)}"
      by blast
    have "rule_targets re (r # rules) paths tb = Inr S"
      using S(1) True m r by simp
    moreover have "set S = set tb \<union> {b. \<exists>r\<in>set (r # rules). \<exists>m. re (fst r) = Some m \<and> paths \<noteq> []
                              \<and> list_all m paths \<and> b \<in> set (snd r)}"
      using S(2) True m r by auto
    ultimately show ?thesis by blast
  next
    case False
    from Cons.IH [OF rest, of tb] obtain S where
      S: "rule_targets re rules paths tb = Inr S"
         "set S = set tb \<union> {b. \<exists>r\<in>set rules. \<exists>m. re (fst r) = Some m \<and> paths \<noteq> []
                              \<and> list_all m paths \<and> b \<in> set (snd r)}"
      by blast
    have "rule_targets re (r # rules) paths tb = Inr S"
      using S(1) False m r by auto
    moreover have "set S = set tb \<union> {b. \<exists>r\<in>set (r # rules). \<exists>m. re (fst r) = Some m \<and> paths \<noteq> []
                              \<and> list_all m paths \<and> b \<in> set (snd r)}"
      using S(2) False m r by auto
    ultimately show ?thesis by blast
  qed
qed

lemma rule_targets_raises:
  "\<exists>r\<in>set rules. re (fst r) = None \<Longrightarrow> rule_targets re rules paths tb = Inl ReError"
proof (induction rules arbitrary: tb)
  case Nil
  then show ?case by simp
next
  case (Cons r rules)
  obtain rule branches where r: "r = (rule, branches)" by (cases r)
  show ?case
  proof (cases "re rule")
    case None
    then show ?thesis using r by simp
  next
    case (Some m)
    with Cons.prems r have "\<exists>r\<in>set rules. re (fst r) = None" by auto
    then have "rule_targets re rules paths tb' = Inl ReError" for tb'
      by (rule Cons.IH)
    then show ?thesis using r Some by simp
  qed
qed

lemma rule_targets_empty_paths:
  "rule_targets re rules [] tb \<noteq> Inl ReError \<Longrightarrow> rule_targets re rules [] tb = Inr tb"
  by (induction rules arbitrary: tb) (auto split: option.splits)

text \<open>
  Claim C4, as amended. For every rule table whose patterns all compile and every set of
  changed paths, the rule-derived candidate set holds a branch exactly when some rule
  lists it, the set of changed paths is not empty and every changed path matches that
  rule's pattern; with no changed path the rules of such a table add nothing to the
  targets, whatever the labels gave. The patterns are compiled before the paths are
  looked at, so the restriction to tables that compile is needed also when no path
  changed.
\<close>

theorem C4_rule_targets:
  assumes "\<forall>r\<in>set rules. re (fst r) \<noteq> None"
  shows "(\<exists>S. rule_targets re rules paths [] = Inr S \<and>
            (\<forall>b. b \<in> set S \<longleftrightarrow>
               (\<exists>r\<in>set rules. \<exists>m. re (fst r) = Some m \<and> paths \<noteq> []
                   \<and> (\<forall>p\<in>set paths. m p) \<and> b \<in> set (snd r))))
         \<and> rule_targets re rules [] tb = Inr tb"
proof
  from rule_targets_set [OF assms, of paths "[]"] obtain S where
    S: "rule_targets re rules paths [] = Inr S"
       "set S = set [] \<union> {b. \<exists>r\<in>set rules. \<exists>m. re (fst r) = Some m \<and> paths \<noteq> []
                              \<and> list_all m paths \<and> b \<in> set (snd r)}"
    by blast
  from S(2) have "\<forall>b. b \<in> set S \<longleftrightarrow>
               (\<exists>r\<in>set rules. \<exists>m. re (fst r) = Some m \<and> paths \<noteq> []
                   \<and> (\<forall>p\<in>set paths. m p) \<and> b \<in> set (snd r))"
    by (simp add: list_all_iff)
  with S(1) show "\<exists>S. rule_targets re rules paths [] = Inr S \<and>
            (\<forall>b. b \<in> set S \<longleftrightarrow>
               (\<exists>r\<in>set rules. \<exists>m. re (fst r) = Some m \<and> paths \<noteq> []
                   \<and> (\<forall>p\<in>set paths. m p) \<and> b \<in> set (snd r)))"
    by blast
next
  from rule_targets_set [OF assms, of "[]" tb] rule_targets_empty_paths [of re rules tb]
  show "rule_targets re rules [] tb = Inr tb" by auto
qed

theorem C4_rule_targets_witness:
  "rule_targets re_fragment [(''^Detector/.*'', [''rel-7''])]
      [''Detector/Calo/x.cpp'', ''Detector/Track/y.cpp''] [] = Inr [''rel-7'']
   \<and> rule_targets re_fragment [(''^Detector/.*'', [''rel-7''])] [] [''rel-5''] = Inr [''rel-5'']"
  using C4_rule_targets [of "[(''^Detector/.*'', [''rel-7''])]" re_fragment
          "[''Detector/Calo/x.cpp'', ''Detector/Track/y.cpp'']" "[''rel-5'']"]
  by (simp add: example_defs)

text \<open>
  The claim as stated, for every rule table, fails: with the malformed pattern \<^verbatim>\<open>(\<close> in
  the table and no changed path, rule resolution gives no rule-derived set, empty or
  not, and the run ends with the pattern error although the label \<^verbatim>\<open>alsoTargeting:rel-5\<close>
  names an explicit target.
\<close>

theorem C4_counterexample:
  "rule_targets re_fragment [(''('', [''rel-7''])] [] [] \<noteq> Inr []
   \<and> rule_targets re_fragment [(''('', [''rel-7''])] [] [''rel-5''] = Inl ReError
   \<and> cherryPickPr (ok_world [''alsoTargeting:rel-5''] []) (merge_config [(''('', [''rel-7''])])
       = (\<lparr>trace = [Call (GetCommit ''abc1234'') True, Call (GitShow ''abc1234'') True,
                    Call (GetPull 42) True, Call (GetUser ''alice'') True,
                    Call (GetCommits ''alice'') True, Call GetLabels True,
                    Call GetFiles True],
           good_branches = [], failed_branches = []\<rparr>,
          Some ReError)"
  by (simp add: model_defs example_defs split_def)

subsection \<open>Reading the change record and the labels changes nothing\<close>

lemma is_log_retrieval: "is_log e \<Longrightarrow> retrieval e"
  by (cases e) auto

lemma list_all_log_retrieval: "list_all is_log evs \<Longrightarrow> list_all retrieval evs"
  by (induction evs) (auto simp: is_log_retrieval)

lemma get_change_retrieval: "list_all retrieval (fst (get_change w cfg))"
  by (simp add: get_change_def call_def Let_def split: option.splits prod.splits)

lemma also_targeting_logs:
  "list_all is_log ws \<Longrightarrow> list_all is_log (snd (also_targeting l (tb, ws)))"
  by (simp add: also_targeting_def split: list.splits)

lemma sweep_labels_logs:
  "list_all is_log ws \<Longrightarrow> list_all is_log (snd (snd (snd (sweep_labels ls (tb, ex, ws)))))"
proof (induction ls arbitrary: tb ex ws)
  case Nil
  then show ?case by simp
next
  case (Cons l ls)
  obtain tb' ws' where a: "also_targeting l (tb, ws) = (tb', ws')"
    by (cases "also_targeting l (tb, ws)")
  with also_targeting_logs [OF Cons.prems, of l tb] have "list_all is_log ws'" by simp
  from Cons.IH [OF this] a Cons.prems show ?case by simp
qed

lemma sweep_labels_swept:
  "\<exists>l\<in>set ls. prefix ''sweptFrom:'' l \<Longrightarrow> fst (sweep_labels ls acc)"
proof (induction ls arbitrary: acc)
  case Nil
  then show ?case by simp
next
  case (Cons l ls)
  obtain tb ex ws where acc: "acc = (tb, ex, ws)" by (cases acc)
  show ?case
  proof (cases "prefix ''sweptFrom:'' l")
    case True
    then show ?thesis using acc by simp
  next
    case False
    with Cons.prems have "\<exists>l\<in>set ls. prefix ''sweptFrom:'' l" by auto
    from Cons.IH [OF this] False acc show ?thesis
      by (simp add: Let_def split: prod.splits)
  qed
qed

lemma set_iter_set: "set (set_iter h (py_set xs)) = set xs"
  by (simp add: set_iter_def py_set_def)

lemma compose_retrieval: "list_all retrieval (fst (compose w cfg))"
proof -
  obtain b tb ex ws where
    s: "sweep_labels (set_iter (str_hash w) (py_set (pr_label_names w))) ([], [], []) = (b, tb, ex, ws)"
    by (cases "sweep_labels (set_iter (str_hash w) (py_set (pr_label_names w))) ([], [], [])")
  have "list_all is_log (snd (snd (snd (sweep_labels (set_iter (str_hash w) (py_set (pr_label_names w))) ([], [], [])))))"
    by (rule sweep_labels_logs) simp
  with s have "list_all is_log ws" by simp
  then have "list_all retrieval ws" by (rule list_all_log_retrieval)
  with s show ?thesis
    by (auto simp: compose_def call_def Let_def split: sum.splits bool.splits)
qed

lemma compose_abort:
  assumes "''sweep:done'' \<in> set (pr_label_names w) \<or> ''sweep:ignore'' \<in> set (pr_label_names w)
           \<or> (\<exists>l\<in>set (pr_label_names w). prefix ''sweptFrom:'' l)"
  shows "\<exists>ws. compose w cfg = (ws, Return) \<and> list_all is_log ws"
proof (cases "''sweep:done'' \<in> set (pr_label_names w) \<or> ''sweep:ignore'' \<in> set (pr_label_names w)")
  case True
  then show ?thesis by (auto simp: compose_def py_set_def Let_def)
next
  case False
  with assms have "\<exists>l\<in>set (set_iter (str_hash w) (py_set (pr_label_names w))). prefix ''sweptFrom:'' l"
    by (simp add: set_iter_set)
  from sweep_labels_swept [OF this, of "([], [], [])"]
  obtain tb ex ws where s: "sweep_labels (set_iter (str_hash w) (py_set (pr_label_names w))) ([], [], []) = (True, tb, ex, ws)"
    by (cases "sweep_labels (set_iter (str_hash w) (py_set (pr_label_names w))) ([], [], [])") auto
  have "list_all is_log (snd (snd (snd (sweep_labels (set_iter (str_hash w) (py_set (pr_label_names w))) ([], [], [])))))"
    by (rule sweep_labels_logs) simp
  with s have "list_all is_log ws" by simp
  with s False show ?thesis by (simp add: compose_def py_set_def Let_def)
qed

lemma labels_after_retrieval: "list_all retrieval evs \<Longrightarrow> labels_after ls evs = ls"
  by (induction ls evs rule: labels_after.induct) auto

lemma retrieval_not_set_labels: "list_all retrieval evs \<Longrightarrow> \<not> list_ex is_set_labels evs"
proof (induction evs)
  case Nil
  then show ?case by simp
next
  case (Cons e evs)
  then have "retrieval e" by simp
  then have "\<not> is_set_labels e"
    by (cases e rule: retrieval.cases) auto
  with Cons show ?case by simp
qed

text \<open>
  Claim C5. When the labels of the pull request hold \<^verbatim>\<open>sweep:done\<close>, \<^verbatim>\<open>sweep:ignore\<close> or
  a label that starts with \<^verbatim>\<open>sweptFrom:\<close>, the run makes the calls that read the change
  record (the commit, \<^verbatim>\<open>git show\<close>, the pull request, the author, the author's commits,
  the labels) and none after them: beyond these it only logs. No call writes, no branch
  is published, the function returns unless reading the change record raised, the labels
  of the pull request are what they were, and a second run on the pull request as the
  first run left it does the same.
\<close>

theorem C5_abort_labels:
  assumes "''sweep:done'' \<in> set (pr_label_names w) \<or> ''sweep:ignore'' \<in> set (pr_label_names w)
           \<or> (\<exists>l\<in>set (pr_label_names w). prefix ''sweptFrom:'' l)"
  shows "(\<exists>ws. trace (fst (cherryPickPr w cfg)) = fst (get_change w cfg) @ ws \<and> list_all is_log ws)
       \<and> list_all retrieval (trace (fst (cherryPickPr w cfg)))
       \<and> good_branches (fst (cherryPickPr w cfg)) = []
       \<and> failed_branches (fst (cherryPickPr w cfg)) = []
       \<and> snd (cherryPickPr w cfg) = (case snd (get_change w cfg) of Raise e \<Rightarrow> Some e | _ \<Rightarrow> None)
       \<and> labels_after (pr_label_names w) (trace (fst (cherryPickPr w cfg))) = pr_label_names w
       \<and> cherryPickPr
            (w\<lparr>pr_label_names :=
                 labels_after (pr_label_names w) (trace (fst (cherryPickPr w cfg)))\<rparr>) cfg
          = cherryPickPr w cfg"
proof -
  from compose_abort [OF assms, of cfg] obtain ws where
    ws: "compose w cfg = (ws, Return)" "list_all is_log ws" by blast
  obtain evs fl where g: "get_change w cfg = (evs, fl)" by (cases "get_change w cfg")
  have tr: "trace (fst (cherryPickPr w cfg)) = evs @ (case fl of Continue ch \<Rightarrow> ws | _ \<Rightarrow> [])"
    using g ws(1) by (simp add: cherryPickPr_def start_def split: flow.splits)
  have logs: "list_all is_log (case fl of Continue ch \<Rightarrow> ws | _ \<Rightarrow> [])"
    using ws(2) by (simp split: flow.splits)
  have 1: "\<exists>ws. trace (fst (cherryPickPr w cfg)) = fst (get_change w cfg) @ ws \<and> list_all is_log ws"
    using tr logs g by auto
  have "list_all retrieval evs" using get_change_retrieval [of w cfg] g by simp
  with tr list_all_log_retrieval [OF logs]
  have 2: "list_all retrieval (trace (fst (cherryPickPr w cfg)))" by simp
  have 3: "good_branches (fst (cherryPickPr w cfg)) = []"
          "failed_branches (fst (cherryPickPr w cfg)) = []"
    using g ws(1) by (simp_all add: cherryPickPr_def start_def split: flow.splits)
  have 4: "snd (cherryPickPr w cfg) = (case snd (get_change w cfg) of Raise e \<Rightarrow> Some e | _ \<Rightarrow> None)"
    using g ws(1) by (simp add: cherryPickPr_def split: flow.splits)
  have 5: "labels_after (pr_label_names w) (trace (fst (cherryPickPr w cfg))) = pr_label_names w"
    using 2 by (rule labels_after_retrieval)
  show ?thesis using 1 2 3 4 5 by simp
qed

theorem C5_abort_labels_witness:
  "trace (fst (cherryPickPr (ok_world [''alsoTargeting:rel-7'', ''sweptFrom:rel-6''] [])
                 (merge_config [])))
     = [Call (GetCommit ''abc1234'') True, Call (GitShow ''abc1234'') True,
        Call (GetPull 42) True, Call (GetUser ''alice'') True,
        Call (GetCommits ''alice'') True, Call GetLabels True]
   \<and> snd (cherryPickPr (ok_world [''alsoTargeting:rel-7'', ''sweptFrom:rel-6''] [])
                 (merge_config [])) = None
   \<and> labels_after [''alsoTargeting:rel-7'', ''sweptFrom:rel-6'']
        (trace (fst (cherryPickPr (ok_world [''alsoTargeting:rel-7'', ''sweptFrom:rel-6''] [])
                 (merge_config []))))
      = [''alsoTargeting:rel-7'', ''sweptFrom:rel-6'']"
  using C5_abort_labels [of "ok_world [''alsoTargeting:rel-7'', ''sweptFrom:rel-6''] []"
                            "merge_config []"]
  by (simp add: model_defs example_defs)

text \<open>
  Claim C8. In a dry run the function ends before the label write of line 311: the run is
  the reading of the change record and the composing of the targets, every call of it
  only reads, no \<^verbatim>\<open>set_labels\<close> call is made, no branch is published and the labels of
  the pull request are what they were.
\<close>

theorem C8_dry_run:
  assumes "dry_run cfg"
  shows "trace (fst (cherryPickPr w cfg))
           = fst (get_change w cfg)
             @ (case snd (get_change w cfg) of Continue ch \<Rightarrow> fst (compose w cfg) | _ \<Rightarrow> [])
       \<and> list_all retrieval (trace (fst (cherryPickPr w cfg)))
       \<and> \<not> list_ex is_set_labels (trace (fst (cherryPickPr w cfg)))
       \<and> good_branches (fst (cherryPickPr w cfg)) = []
       \<and> failed_branches (fst (cherryPickPr w cfg)) = []
       \<and> labels_after (pr_label_names w) (trace (fst (cherryPickPr w cfg))) = pr_label_names w"
proof -
  obtain evs fl where g: "get_change w cfg = (evs, fl)" by (cases "get_change w cfg")
  obtain evs' fl' where c: "compose w cfg = (evs', fl')" by (cases "compose w cfg")
  have r: "cherryPickPr w cfg
             = (start (evs @ (case fl of Continue ch \<Rightarrow> evs' | _ \<Rightarrow> [])),
                case fl of Raise e \<Rightarrow> Some e | Return \<Rightarrow> None
                | Continue ch \<Rightarrow> (case fl' of Raise e \<Rightarrow> Some e | _ \<Rightarrow> None))"
    using g c assms by (simp add: cherryPickPr_def sweep_def split: flow.splits prod.splits)
  have 1: "trace (fst (cherryPickPr w cfg))
           = fst (get_change w cfg)
             @ (case snd (get_change w cfg) of Continue ch \<Rightarrow> fst (compose w cfg) | _ \<Rightarrow> [])"
    using r g c by (simp add: start_def split: flow.splits)
  have "list_all retrieval evs" using get_change_retrieval [of w cfg] g by simp
  moreover have "list_all retrieval evs'" using compose_retrieval [of w cfg] c by simp
  ultimately have 2: "list_all retrieval (trace (fst (cherryPickPr w cfg)))"
    using r by (simp add: start_def split: flow.splits)
  have 3: "\<not> list_ex is_set_labels (trace (fst (cherryPickPr w cfg)))"
    using 2 by (rule retrieval_not_set_labels)
  have 4: "good_branches (fst (cherryPickPr w cfg)) = []"
          "failed_branches (fst (cherryPickPr w cfg)) = []"
    using r by (simp_all add: start_def)
  have 5: "labels_after (pr_label_names w) (trace (fst (cherryPickPr w cfg))) = pr_label_names w"
    using 2 by (rule labels_after_retrieval)
  show ?thesis using 1 2 3 4 5 by simp
qed

theorem C8_dry_run_witness:
  "trace (fst (cherryPickPr (ok_world [''alsoTargeting:rel-7''] [''Detector/x.cpp''])
                 ((merge_config [(''^Detector/.*'', [''rel-8''])])\<lparr>dry_run := True\<rparr>)))
     = [Call (GetCommit ''abc1234'') True, Call (GitShow ''abc1234'') True,
        Call (GetPull 42) True, Call (GetUser ''alice'') True,
        Call (GetCommits ''alice'') True, Call GetLabels True, Call GetFiles True]
   \<and> labels_after [''alsoTargeting:rel-7'']
        (trace (fst (cherryPickPr (ok_world [''alsoTargeting:rel-7''] [''Detector/x.cpp''])
                 ((merge_config [(''^Detector/.*'', [''rel-8''])])\<lparr>dry_run := True\<rparr>))))
      = [''alsoTargeting:rel-7'']"
  using C8_dry_run [of "(merge_config [(''^Detector/.*'', [''rel-8''])])\<lparr>dry_run := True\<rparr>"
                       "ok_world [''alsoTargeting:rel-7''] [''Detector/x.cpp'']"]
  by (simp add: model_defs example_defs)

subsection \<open>A malformed pattern\<close>

lemma compose_continue_patterns:
  assumes "compose w cfg = (evs, Continue plan)"
  shows "\<forall>r\<in>set (target_branch_rules cfg). re_compile w (fst r) \<noteq> None"
proof (rule ccontr)
  assume "\<not> (\<forall>r\<in>set (target_branch_rules cfg). re_compile w (fst r) \<noteq> None)"
  then have "\<exists>r\<in>set (target_branch_rules cfg). re_compile w (fst r) = None" by simp
  then have "rule_targets (re_compile w) (target_branch_rules cfg) (listChangedPackages w) tb
               = Inl ReError" for tb
    by (rule rule_targets_raises)
  with assms show False
    by (auto simp: compose_def Let_def split: if_splits bool.splits prod.splits)
qed

lemma cherryPickPr_not_composed:
  assumes "\<forall>plan. snd (compose w cfg) \<noteq> Continue plan"
  shows "list_all retrieval (trace (fst (cherryPickPr w cfg)))
       \<and> good_branches (fst (cherryPickPr w cfg)) = []
       \<and> failed_branches (fst (cherryPickPr w cfg)) = []"
proof -
  obtain evs fl where g: "get_change w cfg = (evs, fl)" by (cases "get_change w cfg")
  obtain evs' fl' where c: "compose w cfg = (evs', fl')" by (cases "compose w cfg")
  have 1: "list_all retrieval evs" using get_change_retrieval [of w cfg] g by simp
  have 2: "list_all retrieval evs'" using compose_retrieval [of w cfg] c by simp
  from assms c have "\<forall>plan. fl' \<noteq> Continue plan" by simp
  then show ?thesis using g c 1 2
    by (cases fl; cases fl') (simp_all add: cherryPickPr_def start_def)
qed

lemma sweep_labels_not_swept:
  "\<forall>l\<in>set ls. \<not> prefix ''sweptFrom:'' l \<Longrightarrow> \<not> fst (sweep_labels ls acc)"
proof (induction ls arbitrary: acc)
  case Nil
  then show ?case by simp
next
  case (Cons l ls)
  obtain tb ex ws where acc: "acc = (tb, ex, ws)" by (cases acc)
  from Cons.prems have "\<forall>l\<in>set ls. \<not> prefix ''sweptFrom:'' l" by simp
  from Cons.IH [OF this] Cons.prems acc show ?case
    by (simp add: Let_def split: prod.splits)
qed

lemma message_error_not_re: "message_error d \<noteq> Some ReError"
  by (cases d) simp_all

lemma get_change_not_re: "snd (get_change w cfg) \<noteq> Raise ReError"
  using message_error_not_re [of "exc_data w (GetCommit (merge_commit cfg))"]
  by (auto simp: get_change_def message_def Let_def split: option.splits)

text \<open>
  Rule resolution is reached when the change record is read, no label ends the run
  before it and the changed files are listed.
\<close>

lemma compose_raises_re:
  assumes "\<exists>r\<in>set (target_branch_rules cfg). re_compile w (fst r) = None"
  shows "snd (compose w cfg) = Raise ReError \<longleftrightarrow>
           ''sweep:done'' \<notin> set (pr_label_names w) \<and> ''sweep:ignore'' \<notin> set (pr_label_names w)
           \<and> (\<forall>l\<in>set (pr_label_names w). \<not> prefix ''sweptFrom:'' l) \<and> api_ok w GetFiles"
proof -
  let ?ls = "set_iter (str_hash w) (py_set (pr_label_names w))"
  obtain b tb ex ws where
    sl: "sweep_labels ?ls ([], [], []) = (b, tb, ex, ws)"
    by (cases "sweep_labels ?ls ([], [], [])")
  have b: "b \<longleftrightarrow> (\<exists>l\<in>set (pr_label_names w). prefix ''sweptFrom:'' l)"
    using sweep_labels_swept [of ?ls "([], [], [])"]
          sweep_labels_not_swept [of ?ls "([], [], [])"] sl
    by (auto simp: set_iter_set)
  have r: "rule_targets (re_compile w) (target_branch_rules cfg) (listChangedPackages w) tb
             = Inl ReError"
    using assms by (rule rule_targets_raises)
  show ?thesis
  proof (cases b)
    case True
    with sl b show ?thesis by (auto simp: compose_def Let_def py_set_def)
  next
    case False
    with sl b r show ?thesis by (auto simp: compose_def Let_def py_set_def)
  qed
qed

text \<open>
  Claim C2, as amended. A malformed pattern is not skipped: \<^verbatim>\<open>re.compile\<close> raises and
  nothing catches the exception, so rule resolution ends with the error and gives no
  candidate set exactly when the table holds a malformed pattern; it gives a candidate
  set exactly when every pattern is well-formed. With a malformed pattern in the table
  the run never has its targets composed: it only reads, writes no label and publishes to
  no branch; and \<^verbatim>\<open>cherryPickPr\<close> ends with the pattern error exactly when rule resolution
  is reached, that is when the change record is read, no \<^verbatim>\<open>sweep:done\<close>, \<^verbatim>\<open>sweep:ignore\<close> or
  \<^verbatim>\<open>sweptFrom:\<close> label ends the run before it and the changed files are listed.
\<close>

theorem C2_malformed_pattern_raises:
  "((\<exists>r\<in>set rules. re (fst r) = None) \<longleftrightarrow> rule_targets re rules paths tb = Inl ReError)
   \<and> ((\<forall>r\<in>set rules. re (fst r) \<noteq> None) \<longleftrightarrow> (\<exists>S. rule_targets re rules paths tb = Inr S))
   \<and> ((\<exists>r\<in>set (target_branch_rules cfg). re_compile w (fst r) = None) \<longrightarrow>
        (\<forall>plan. snd (compose w cfg) \<noteq> Continue plan)
        \<and> list_all retrieval (trace (fst (cherryPickPr w cfg)))
        \<and> good_branches (fst (cherryPickPr w cfg)) = []
        \<and> failed_branches (fst (cherryPickPr w cfg)) = []
        \<and> (snd (cherryPickPr w cfg) = Some ReError \<longleftrightarrow>
             (\<exists>ch. snd (get_change w cfg) = Continue ch)
             \<and> ''sweep:done'' \<notin> set (pr_label_names w)
             \<and> ''sweep:ignore'' \<notin> set (pr_label_names w)
             \<and> (\<forall>l\<in>set (pr_label_names w). \<not> prefix ''sweptFrom:'' l)
             \<and> api_ok w GetFiles))"
proof -
  have a: "(\<exists>r\<in>set rules. re (fst r) = None) \<Longrightarrow> rule_targets re rules paths tb = Inl ReError"
    by (rule rule_targets_raises)
  have b: "(\<forall>r\<in>set rules. re (fst r) \<noteq> None) \<Longrightarrow> \<exists>S. rule_targets re rules paths tb = Inr S"
    using rule_targets_set [of rules re paths tb] by blast
  have 1: "((\<exists>r\<in>set rules. re (fst r) = None) \<longleftrightarrow> rule_targets re rules paths tb = Inl ReError)
   \<and> ((\<forall>r\<in>set rules. re (fst r) \<noteq> None) \<longleftrightarrow> (\<exists>S. rule_targets re rules paths tb = Inr S))"
    using a b by (metis Inl_Inr_False)
  have 2: "(\<exists>r\<in>set (target_branch_rules cfg). re_compile w (fst r) = None) \<longrightarrow>
        (\<forall>plan. snd (compose w cfg) \<noteq> Continue plan)
        \<and> list_all retrieval (trace (fst (cherryPickPr w cfg)))
        \<and> good_branches (fst (cherryPickPr w cfg)) = []
        \<and> failed_branches (fst (cherryPickPr w cfg)) = []
        \<and> (snd (cherryPickPr w cfg) = Some ReError \<longleftrightarrow>
             (\<exists>ch. snd (get_change w cfg) = Continue ch)
             \<and> ''sweep:done'' \<notin> set (pr_label_names w)
             \<and> ''sweep:ignore'' \<notin> set (pr_label_names w)
             \<and> (\<forall>l\<in>set (pr_label_names w). \<not> prefix ''sweptFrom:'' l)
             \<and> api_ok w GetFiles)"
  proof
    assume m: "\<exists>r\<in>set (target_branch_rules cfg). re_compile w (fst r) = None"
    have n: "\<forall>plan. snd (compose w cfg) \<noteq> Continue plan"
    proof (intro allI notI)
      fix plan
      assume "snd (compose w cfg) = Continue plan"
      then have "compose w cfg = (fst (compose w cfg), Continue plan)"
        by (cases "compose w cfg") simp
      from compose_continue_patterns [OF this] m show False by auto
    qed
    obtain evs fl where g: "get_change w cfg = (evs, fl)" by (cases "get_change w cfg")
    obtain evs' fl' where c: "compose w cfg = (evs', fl')" by (cases "compose w cfg")
    from get_change_not_re [of w cfg] g have g': "fl \<noteq> Raise ReError" by simp
    from n c have c': "\<forall>plan. fl' \<noteq> Continue plan" by simp
    have "snd (cherryPickPr w cfg) = Some ReError \<longleftrightarrow>
            (\<exists>ch. fl = Continue ch) \<and> fl' = Raise ReError"
      using g c g' c' by (cases fl; cases fl') (simp_all add: cherryPickPr_def)
    with compose_raises_re [OF m] g c
    have e: "snd (cherryPickPr w cfg) = Some ReError \<longleftrightarrow>
             (\<exists>ch. snd (get_change w cfg) = Continue ch)
             \<and> ''sweep:done'' \<notin> set (pr_label_names w)
             \<and> ''sweep:ignore'' \<notin> set (pr_label_names w)
             \<and> (\<forall>l\<in>set (pr_label_names w). \<not> prefix ''sweptFrom:'' l)
             \<and> api_ok w GetFiles"
      by simp
    from n cherryPickPr_not_composed [OF n] e
    show "(\<forall>plan. snd (compose w cfg) \<noteq> Continue plan)
        \<and> list_all retrieval (trace (fst (cherryPickPr w cfg)))
        \<and> good_branches (fst (cherryPickPr w cfg)) = []
        \<and> failed_branches (fst (cherryPickPr w cfg)) = []
        \<and> (snd (cherryPickPr w cfg) = Some ReError \<longleftrightarrow>
             (\<exists>ch. snd (get_change w cfg) = Continue ch)
             \<and> ''sweep:done'' \<notin> set (pr_label_names w)
             \<and> ''sweep:ignore'' \<notin> set (pr_label_names w)
             \<and> (\<forall>l\<in>set (pr_label_names w). \<not> prefix ''sweptFrom:'' l)
             \<and> api_ok w GetFiles)"
      by blast
  qed
  show ?thesis using 1 2 by blast
qed

theorem C2_malformed_pattern_raises_witness:
  "rule_targets re_fragment [(''^Detector/.*'', [''rel-8'']), (''*'', [''rel-7''])]
      [''Detector/x.cpp''] [] = Inl ReError
   \<and> (\<exists>S. rule_targets re_fragment [(''^Detector/.*'', [''rel-8''])] [''Detector/x.cpp''] []
            = Inr S)
   \<and> trace (fst (cherryPickPr (ok_world [] [''Detector/x.cpp''])
        (merge_config [(''^Detector/.*'', [''rel-8'']), (''*'', [''rel-7''])])))
      = [Call (GetCommit ''abc1234'') True, Call (GitShow ''abc1234'') True,
         Call (GetPull 42) True, Call (GetUser ''alice'') True,
         Call (GetCommits ''alice'') True, Call GetLabels True, Call GetFiles True]
   \<and> snd (cherryPickPr (ok_world [] [''Detector/x.cpp''])
        (merge_config [(''^Detector/.*'', [''rel-8'']), (''*'', [''rel-7''])]))
      = Some ReError
   \<and> snd (cherryPickPr (ok_world [''sweep:done''] [''Detector/x.cpp''])
        (merge_config [(''^Detector/.*'', [''rel-8'']), (''*'', [''rel-7''])]))
      \<noteq> Some ReError"
  using C2_malformed_pattern_raises
          [where rules = "[(''^Detector/.*'', [''rel-8'']), (''*'', [''rel-7''])]"
             and re = re_fragment and paths = "[''Detector/x.cpp'']" and tb = "[]"
             and w = "ok_world [] [''Detector/x.cpp'']"
             and cfg = "merge_config [(''^Detector/.*'', [''rel-8'']), (''*'', [''rel-7''])]"]
        C2_malformed_pattern_raises
          [where rules = "[(''^Detector/.*'', [''rel-8''])]" and re = re_fragment
             and paths = "[''Detector/x.cpp'']" and tb = "[]"
             and w = "ok_world [''sweep:done''] [''Detector/x.cpp'']"
             and cfg = "merge_config [(''^Detector/.*'', [''rel-8'']), (''*'', [''rel-7''])]"]
  by (simp add: model_defs example_defs)

text \<open>
  The claim as stated fails: with the malformed pattern \<^verbatim>\<open>(\<close> in the table, the rule
  \<^verbatim>\<open>^Detector/.*\<close>, which matches the only changed path, is never evaluated.
\<close>

theorem C2_counterexample:
  "rule_targets re_fragment [(''('', [''rel-7'']), (''^Detector/.*'', [''rel-8''])]
      [''Detector/x.cpp''] [] = Inl ReError
   \<and> snd (cherryPickPr (ok_world [] [''Detector/x.cpp''])
            (merge_config [(''('', [''rel-7'']), (''^Detector/.*'', [''rel-8''])]))
       = Some ReError"
  by (simp add: model_defs example_defs)

subsection \<open>One pass of the publish loop\<close>



lemma pull_for_Call:
  "pull_for t (Call c ok) = (ok \<and> (case c of CreatePull a b h base \<Rightarrow> base = t | _ \<Rightarrow> False))"
  by (cases ok; cases c) simp_all

lemmas pass_defs = publish_events_def publish_branch_def create_ref_def apply_strategy_def
  open_request_def emit_def start_def call_def message_def Let_def

text \<open>The first tested call that the world refuses, by its place in the pass.\<close>

lemma tested_refused:
  assumes "find (\<lambda>c. \<not> api_ok w c) (tested_calls w cfg ch t) = Some c"
  obtains
    (branch) "c = GetBranch t" "\<not> api_ok w (GetBranch t)"
  | (ref) "c = CreateGitRef (''refs/heads/'' @ cherry_pick_branch (merge_commit cfg) t)
                 (branch_tip w t)"
      "api_ok w (GetBranch t)" "\<not> api_ok w c"
  | (merge) "strategy cfg = ''merge''"
      "c = Merge (cherry_pick_branch (merge_commit cfg) t) (sha ch)"
      "api_ok w (GetBranch t)"
      "api_ok w (CreateGitRef (''refs/heads/'' @ cherry_pick_branch (merge_commit cfg) t)
                   (branch_tip w t))"
      "\<not> api_ok w c"
  | (merge_pull) "strategy cfg = ''merge''"
      "c = CreatePull (new_pr_title ch t) (body_text ch t)
             (dirname (pr_project_name cfg) @ '':'' @ cherry_pick_branch (merge_commit cfg) t) t"
      "api_ok w (GetBranch t)"
      "api_ok w (CreateGitRef (''refs/heads/'' @ cherry_pick_branch (merge_commit cfg) t)
                   (branch_tip w t))"
      "api_ok w (Merge (cherry_pick_branch (merge_commit cfg) t) (sha ch))"
      "\<not> api_ok w c"
  | (pick) "strategy cfg \<noteq> ''merge''" "strategy cfg = ''cherry-pick''"
      "c = GitCherryPick (cherry_pick_branch (merge_commit cfg) t) (sha ch)"
      "api_ok w (GetBranch t)"
      "api_ok w (CreateGitRef (''refs/heads/'' @ cherry_pick_branch (merge_commit cfg) t)
                   (branch_tip w t))"
      "\<not> api_ok w c"
  | (amend) "strategy cfg \<noteq> ''merge''" "strategy cfg = ''cherry-pick''"
      "c = GitCommitAmend (cherry_pick_branch (merge_commit cfg) t)
             (''sweep: #'' @ str_nat (PR_IID ch) @ '' '' @ orig_pr_title ch) (pr_author ch)"
      "api_ok w (GetBranch t)"
      "api_ok w (CreateGitRef (''refs/heads/'' @ cherry_pick_branch (merge_commit cfg) t)
                   (branch_tip w t))"
      "api_ok w (GitCherryPick (cherry_pick_branch (merge_commit cfg) t) (sha ch))"
      "\<not> api_ok w c"
  | (push) "strategy cfg \<noteq> ''merge''" "strategy cfg = ''cherry-pick''"
      "c = GitPush (cherry_pick_branch (merge_commit cfg) t)"
      "api_ok w (GetBranch t)"
      "api_ok w (CreateGitRef (''refs/heads/'' @ cherry_pick_branch (merge_commit cfg) t)
                   (branch_tip w t))"
      "api_ok w (GitCherryPick (cherry_pick_branch (merge_commit cfg) t) (sha ch))"
      "api_ok w (GitCommitAmend (cherry_pick_branch (merge_commit cfg) t)
             (''sweep: #'' @ str_nat (PR_IID ch) @ '' '' @ orig_pr_title ch) (pr_author ch))"
      "\<not> api_ok w c"
  | (pick_pull) "strategy cfg \<noteq> ''merge''" "strategy cfg = ''cherry-pick''"
      "c = CreatePull (new_pr_title ch t) (body_text ch t)
             (dirname (pr_project_name cfg) @ '':'' @ cherry_pick_branch (merge_commit cfg) t) t"
      "api_ok w (GetBranch t)"
      "api_ok w (CreateGitRef (''refs/heads/'' @ cherry_pick_branch (merge_commit cfg) t)
                   (branch_tip w t))"
      "api_ok w (GitCherryPick (cherry_pick_branch (merge_commit cfg) t) (sha ch))"
      "api_ok w (GitCommitAmend (cherry_pick_branch (merge_commit cfg) t)
             (''sweep: #'' @ str_nat (PR_IID ch) @ '' '' @ orig_pr_title ch) (pr_author ch))"
      "api_ok w (GitPush (cherry_pick_branch (merge_commit cfg) t))"
      "\<not> api_ok w c"
  using assms
  by (simp add: tested_calls_def Let_def split: if_splits)


text \<open>A refused tested call opens no pull request, message or not.\<close>

lemma refused_no_pull:
  assumes "find (\<lambda>c. \<not> api_ok w c) (tested_calls w cfg ch t) = Some c"
  shows "\<not> list_ex (pull_for b) (publish_events w cfg ch t)"
  using assms
proof (cases rule: tested_refused)
  case branch
  then show ?thesis by (simp add: pass_defs pull_for_Call split: option.splits)
next
  case ref
  then show ?thesis by (simp add: pass_defs pull_for_Call split: option.splits)
next
  case merge
  then show ?thesis by (simp add: pass_defs pull_for_Call split: option.splits)
next
  case merge_pull
  then show ?thesis by (simp add: pass_defs pull_for_Call split: option.splits)
next
  case pick
  then show ?thesis by (simp add: pass_defs pull_for_Call split: option.splits)
next
  case amend
  then show ?thesis by (simp add: pass_defs pull_for_Call split: option.splits)
next
  case push
  then show ?thesis by (simp add: pass_defs pull_for_Call split: option.splits)
next
  case pick_pull
  then show ?thesis by (simp add: pass_defs pull_for_Call split: option.splits)
qed

text \<open>The parts of a pass, whatever the world answers.\<close>

lemma create_ref_facts:
  "list_all (\<lambda>e. event_step e \<le> 1) (fst (create_ref w cfg t))
   \<and> list_all publish_event (fst (create_ref w cfg t))
   \<and> \<not> list_ex (pull_for b) (fst (create_ref w cfg t))"
  by (simp add: create_ref_def call_def Let_def pull_for_Call split: option.splits)

lemma apply_strategy_facts:
  "list_all (\<lambda>e. event_step e \<le> 4) (fst (apply_strategy w cfg ch t))
   \<and> list_all publish_event (fst (apply_strategy w cfg ch t))
   \<and> \<not> list_ex (pull_for b) (fst (apply_strategy w cfg ch t))"
  by (simp add: apply_strategy_def call_def Let_def pull_for_Call split: option.splits)

lemmas open_request_defs = open_request_events_def open_request_def emit_def start_def call_def
  Let_def pull_for_Call

lemma open_request_trace:
  "trace (fst (open_request w cfg ch t st)) = trace st @ open_request_events w cfg ch t"
  by (simp add: open_request_defs split: option.splits)

lemma open_request_good:
  "good_branches (fst (open_request w cfg ch t st))
     = (if list_ex (pull_for t) (open_request_events w cfg ch t)
        then List.insert t (good_branches st) else good_branches st)"
  by (simp add: open_request_defs split: option.splits)

lemma open_request_failed:
  "failed_branches (fst (open_request w cfg ch t st)) = failed_branches st
   \<or> \<not> list_ex (pull_for t) (open_request_events w cfg ch t)
     \<and> failed_branches (fst (open_request w cfg ch t st))
         = List.insert (t, merge_commit cfg, open_pr_failed_text cfg t) (failed_branches st)"
  by (simp add: open_request_defs split: option.splits)

lemma open_request_facts:
  "list_all publish_event (open_request_events w cfg ch t)
   \<and> (list_ex (pull_for b) (open_request_events w cfg ch t) \<longrightarrow> b = t)"
  by (simp add: open_request_defs split: option.splits)

text \<open>One pass, from its three parts.\<close>

lemma publish_events_eq:
  "publish_events w cfg ch t
     = fst (create_ref w cfg t)
       @ (case snd (create_ref w cfg t) of
            Inl e \<Rightarrow> []
          | Inr True \<Rightarrow> [Log Critical (join_lines (fixer_instructions cfg ch t))]
          | Inr False \<Rightarrow>
              fst (apply_strategy w cfg ch t)
              @ (case snd (apply_strategy w cfg ch t) of
                   Inl e \<Rightarrow> []
                 | Inr True \<Rightarrow> [Log Critical (join_lines (fixer_instructions cfg ch t))]
                 | Inr False \<Rightarrow> open_request_events w cfg ch t))"
proof -
  obtain e1 r1 where c: "create_ref w cfg t = (e1, r1)" by (cases "create_ref w cfg t")
  obtain e2 r2 where a: "apply_strategy w cfg ch t = (e2, r2)"
    by (cases "apply_strategy w cfg ch t")
  show ?thesis
    using c a
    by (cases r1; cases r2)
       (simp_all add: publish_events_def publish_branch_def open_request_trace emit_def
                      start_def Let_def split: bool.splits)
qed

lemma publish_branch_trace:
  "trace (fst (publish_branch w cfg ch t st)) = trace st @ publish_events w cfg ch t"
proof -
  obtain e1 r1 where c: "create_ref w cfg t = (e1, r1)" by (cases "create_ref w cfg t")
  obtain e2 r2 where a: "apply_strategy w cfg ch t = (e2, r2)"
    by (cases "apply_strategy w cfg ch t")
  show ?thesis
    using c a
    by (cases r1; cases r2)
       (simp_all add: publish_events_eq publish_branch_def open_request_trace emit_def
                      Let_def split: bool.splits)
qed

lemma publish_events_are_publish: "list_all publish_event (publish_events w cfg ch t)"
  using create_ref_facts [of w cfg t t] apply_strategy_facts [of w cfg ch t t]
        open_request_facts [of w cfg ch t t]
  by (simp add: publish_events_eq split: sum.splits bool.splits)

lemma publish_events_pull:
  "list_ex (pull_for b) (publish_events w cfg ch t)
     = (b = t \<and> snd (create_ref w cfg t) = Inr False
        \<and> snd (apply_strategy w cfg ch t) = Inr False
        \<and> list_ex (pull_for t) (open_request_events w cfg ch t))"
  using create_ref_facts [of w cfg t b] apply_strategy_facts [of w cfg ch t b]
        open_request_facts [of w cfg ch t b]
  by (auto simp: publish_events_eq split: sum.splits bool.splits)

lemma publish_branch_good:
  "good_branches (fst (publish_branch w cfg ch t st))
     = (if list_ex (pull_for t) (publish_events w cfg ch t)
        then List.insert t (good_branches st) else good_branches st)"
proof -
  obtain e1 r1 where c: "create_ref w cfg t = (e1, r1)" by (cases "create_ref w cfg t")
  obtain e2 r2 where a: "apply_strategy w cfg ch t = (e2, r2)"
    by (cases "apply_strategy w cfg ch t")
  show ?thesis
    using c a
    by (cases r1; cases r2)
       (simp_all add: publish_events_pull publish_branch_def open_request_good emit_def
                      Let_def split: bool.splits)
qed

lemma publish_branch_failed:
  "failed_branches (fst (publish_branch w cfg ch t st)) = failed_branches st
   \<or> \<not> list_ex (pull_for t) (publish_events w cfg ch t)
     \<and> (\<exists>rt. failed_branches (fst (publish_branch w cfg ch t st))
               = List.insert (t, merge_commit cfg, rt) (failed_branches st))"
proof -
  obtain e1 r1 where c: "create_ref w cfg t = (e1, r1)" by (cases "create_ref w cfg t")
  obtain e2 r2 where a: "apply_strategy w cfg ch t = (e2, r2)"
    by (cases "apply_strategy w cfg ch t")
  let ?st1 = "emit (e1 @ e2) st"
  have f: "failed_branches ?st1 = failed_branches st" by (simp add: emit_def)
  show ?thesis
    using c a open_request_failed [of w cfg ch t ?st1] f
    by (cases r1; cases r2)
       (auto simp: publish_events_pull publish_branch_def emit_def Let_def
             split: bool.splits)
qed

lemma publish_branch_step:
  assumes "publish_branch w cfg ch t st = (st1, exc)"
  shows "trace st1 = trace st @ publish_events w cfg ch t"
    and "good_branches st1
           = (if list_ex (pull_for t) (publish_events w cfg ch t)
              then List.insert t (good_branches st) else good_branches st)"
    and "failed_names st1 = failed_names st
         \<or> \<not> list_ex (pull_for t) (publish_events w cfg ch t)
           \<and> failed_names st1 = insert t (failed_names st)"
    and "set (failed_branches st) \<subseteq> set (failed_branches st1)"
proof -
  from assms have st1: "st1 = fst (publish_branch w cfg ch t st)" by simp
  show "trace st1 = trace st @ publish_events w cfg ch t"
    by (simp add: st1 publish_branch_trace)
  show "good_branches st1
           = (if list_ex (pull_for t) (publish_events w cfg ch t)
              then List.insert t (good_branches st) else good_branches st)"
    by (simp add: st1 publish_branch_good)
  show "failed_names st1 = failed_names st
         \<or> \<not> list_ex (pull_for t) (publish_events w cfg ch t)
           \<and> failed_names st1 = insert t (failed_names st)"
    using publish_branch_failed [of w cfg ch t st]
    by (auto simp: st1 failed_names_def)
  show "set (failed_branches st) \<subseteq> set (failed_branches st1)"
    using publish_branch_failed [of w cfg ch t st]
    by (auto simp: st1)
qed

subsection \<open>The publish loop\<close>

lemma publish_loop_mono:
  "set (good_branches st) \<subseteq> set (good_branches (fst (publish_loop w cfg ch excl ts st)))
   \<and> set (failed_branches st) \<subseteq> set (failed_branches (fst (publish_loop w cfg ch excl ts st)))"
proof (induction ts arbitrary: st)
  case Nil
  show ?case by simp
next
  case (Cons t ts)
  show ?case
  proof (cases "tbranch_excluded excl t")
    case True
    then show ?thesis using Cons.IH [of st] by simp
  next
    case False
    obtain st1 exc where p: "publish_branch w cfg ch t st = (st1, exc)"
      by (cases "publish_branch w cfg ch t st")
    have g: "set (good_branches st) \<subseteq> set (good_branches st1)"
      using publish_branch_step(2) [OF p] by auto
    have f: "set (failed_branches st) \<subseteq> set (failed_branches st1)"
      using publish_branch_step(4) [OF p] .
    show ?thesis
    proof (cases exc)
      case None
      then show ?thesis using False p g f Cons.IH [of st1] by auto
    next
      case (Some e)
      then show ?thesis using False p g f by simp
    qed
  qed
qed


lemma publish_loop_disjoint:
  "distinct ts \<Longrightarrow> set (good_branches st) \<inter> failed_names st = {} \<Longrightarrow>
   (set (good_branches st) \<union> failed_names st) \<inter> set ts = {} \<Longrightarrow>
   set (good_branches (fst (publish_loop w cfg ch excl ts st)))
     \<inter> failed_names (fst (publish_loop w cfg ch excl ts st)) = {}"
proof (induction ts arbitrary: st)
  case Nil
  then show ?case by simp
next
  case (Cons t ts)
  show ?case
  proof (cases "tbranch_excluded excl t")
    case True
    then show ?thesis using Cons.IH [of st] Cons.prems by auto
  next
    case False
    obtain st1 exc where p: "publish_branch w cfg ch t st = (st1, exc)"
      by (cases "publish_branch w cfg ch t st")
    have d: "set (good_branches st1) \<inter> failed_names st1 = {}"
      using publish_branch_step(2,3) [OF p] Cons.prems by (auto split: if_splits)
    have r: "(set (good_branches st1) \<union> failed_names st1) \<inter> set ts = {}"
      using publish_branch_step(2,3) [OF p] Cons.prems by (auto split: if_splits)
    show ?thesis
    proof (cases exc)
      case None
      then have "publish_loop w cfg ch excl (t # ts) st = publish_loop w cfg ch excl ts st1"
        using False p by simp
      then show ?thesis using Cons.IH [OF _ d r] Cons.prems(1) by simp
    next
      case (Some e)
      then have "publish_loop w cfg ch excl (t # ts) st = (st1, Some e)"
        using False p by simp
      then show ?thesis using d by simp
    qed
  qed
qed

lemma publish_loop_trace:
  "\<exists>evs. trace (fst (publish_loop w cfg ch excl ts st)) = trace st @ evs
         \<and> list_all publish_event evs
         \<and> (\<forall>b. list_ex (pull_for b) evs
                 \<longrightarrow> b \<in> set (good_branches (fst (publish_loop w cfg ch excl ts st))))"
proof (induction ts arbitrary: st)
  case Nil
  show ?case by simp
next
  case (Cons t ts)
  show ?case
  proof (cases "tbranch_excluded excl t")
    case True
    then show ?thesis using Cons.IH [of st] by simp
  next
    case False
    obtain st1 exc where p: "publish_branch w cfg ch t st = (st1, exc)"
      by (cases "publish_branch w cfg ch t st")
    let ?pe = "publish_events w cfg ch t"
    have t1: "trace st1 = trace st @ ?pe" using publish_branch_step(1) [OF p] .
    have pe: "list_all publish_event ?pe" by (rule publish_events_are_publish)
    have g1: "\<forall>b. list_ex (pull_for b) ?pe \<longrightarrow> b \<in> set (good_branches st1)"
      using publish_branch_step(2) [OF p] by (auto simp: publish_events_pull)
    show ?thesis
    proof (cases exc)
      case None
      then have l: "publish_loop w cfg ch excl (t # ts) st = publish_loop w cfg ch excl ts st1"
        using False p by simp
      from Cons.IH [of st1] obtain evs where
        e: "trace (fst (publish_loop w cfg ch excl ts st1)) = trace st1 @ evs"
           "list_all publish_event evs"
           "\<forall>b. list_ex (pull_for b) evs
                 \<longrightarrow> b \<in> set (good_branches (fst (publish_loop w cfg ch excl ts st1)))"
        by blast
      have m: "set (good_branches st1)
                 \<subseteq> set (good_branches (fst (publish_loop w cfg ch excl ts st1)))"
        using publish_loop_mono [of st1 w cfg ch excl ts] by simp
      have "trace (fst (publish_loop w cfg ch excl (t # ts) st)) = trace st @ (?pe @ evs)"
        using l e(1) t1 by simp
      moreover have "list_all publish_event (?pe @ evs)" using pe e(2) by simp
      moreover have "\<forall>b. list_ex (pull_for b) (?pe @ evs)
                 \<longrightarrow> b \<in> set (good_branches (fst (publish_loop w cfg ch excl (t # ts) st)))"
        using l e(3) g1 m by auto
      ultimately show ?thesis by blast
    next
      case (Some e)
      then have "publish_loop w cfg ch excl (t # ts) st = (st1, Some e)"
        using False p by simp
      then show ?thesis using t1 pe g1 by simp
    qed
  qed
qed


subsection \<open>The whole run\<close>

lemma also_targeting_distinct:
  "distinct tb \<Longrightarrow> distinct (fst (also_targeting l (tb, ws)))"
  by (simp add: also_targeting_def split: list.splits)

lemma sweep_labels_distinct:
  "distinct tb \<Longrightarrow> distinct (fst (snd (sweep_labels ls (tb, ex, ws))))"
proof (induction ls arbitrary: tb ex ws)
  case Nil
  then show ?case by simp
next
  case (Cons l ls)
  obtain tb' ws' where a: "also_targeting l (tb, ws) = (tb', ws')"
    by (cases "also_targeting l (tb, ws)")
  with also_targeting_distinct [OF Cons.prems, of l ws] have "distinct tb'" by simp
  from Cons.IH [OF this] a Cons.prems show ?case by simp
qed

lemma rule_targets_distinct:
  "distinct tb \<Longrightarrow> rule_targets re rules paths tb = Inr S \<Longrightarrow> distinct S"
proof (induction rules arbitrary: tb)
  case Nil
  then show ?case by simp
next
  case (Cons r rules)
  obtain rule branches where r: "r = (rule, branches)" by (cases r)
  have d: "distinct (List.union branches tb)" using Cons.prems(1) by simp
  from Cons.prems(2) r show ?case
    using Cons.IH [OF d] Cons.IH [OF Cons.prems(1)]
    by (auto split: option.splits if_splits)
qed

lemma compose_distinct:
  assumes "compose w cfg = (evs, Continue (labels, tb, excl))"
  shows "distinct tb"
proof -
  obtain b tb0 ex ws where
    s: "sweep_labels (set_iter (str_hash w) (py_set (pr_label_names w))) ([], [], []) = (b, tb0, ex, ws)"
    by (cases "sweep_labels (set_iter (str_hash w) (py_set (pr_label_names w))) ([], [], [])")
  have "distinct (fst (snd (sweep_labels (set_iter (str_hash w) (py_set (pr_label_names w))) ([], [], []))))"
    by (rule sweep_labels_distinct) simp
  with s have d: "distinct tb0" by simp
  from assms s have "rule_targets (re_compile w) (target_branch_rules cfg) (listChangedPackages w) tb0 = Inr tb"
    by (auto simp: compose_def Let_def split: if_splits bool.splits sum.splits)
  with d show ?thesis by (rule rule_targets_distinct)
qed

lemma sweep_report_facts:
  "good_branches (fst (sweep_report w ch tb st)) = good_branches st
   \<and> failed_branches (fst (sweep_report w ch tb st)) = failed_branches st
   \<and> (\<exists>evs. trace (fst (sweep_report w ch tb st)) = trace st @ evs \<and> list_all report_event evs)"
  by (simp add: sweep_report_def post_summary_def summary_body_def emit_def call_def Let_def
           split: option.splits)

lemma no_pull_retrieval: "list_all retrieval evs \<Longrightarrow> \<not> list_ex (pull_for b) evs"
proof (induction evs)
  case Nil
  then show ?case by simp
next
  case (Cons e evs)
  then have "retrieval e" by simp
  then have "\<not> pull_for b e" by (cases e rule: retrieval.cases) auto
  with Cons show ?case by simp
qed

lemma no_pull_report: "list_all report_event evs \<Longrightarrow> \<not> list_ex (pull_for b) evs"
proof (induction evs)
  case Nil
  then show ?case by simp
next
  case (Cons e evs)
  then have "report_event e" by simp
  then have "\<not> pull_for b e" by (cases e rule: report_event.cases) auto
  with Cons show ?case by simp
qed

text \<open>The run, once the change record is read and the targets are composed.\<close>

lemma sweep_sets:
  assumes "distinct tb" and "\<not> list_ex (pull_for b) evs"
  shows "set (good_branches (fst (sweep w cfg ch (labels, tb, excl) evs)))
           \<inter> failed_names (fst (sweep w cfg ch (labels, tb, excl) evs)) = {}
       \<and> (list_ex (pull_for b) (trace (fst (sweep w cfg ch (labels, tb, excl) evs)))
            \<longrightarrow> b \<in> set (good_branches (fst (sweep w cfg ch (labels, tb, excl) evs))))"
proof (cases "dry_run cfg \<or> \<not> api_ok w (SetLabels labels)")
  case True
  then show ?thesis using assms(2)
    by (auto simp: sweep_def start_def failed_names_def call_def pull_for_Call)
next
  case False
  let ?st0 = "start (evs @ [call w (SetLabels labels)])"
  let ?ts = "set_iter (str_hash w) tb"
  obtain st exc where l: "publish_loop w cfg ch excl ?ts ?st0 = (st, exc)"
    by (cases "publish_loop w cfg ch excl ?ts ?st0")
  have d: "distinct ?ts" using assms(1) by (simp add: set_iter_def)
  have dj: "set (good_branches st) \<inter> failed_names st = {}"
    using publish_loop_disjoint [OF d, of ?st0 w cfg ch excl] l
    by (simp add: start_def failed_names_def)
  from publish_loop_trace [of w cfg ch excl ?ts ?st0] l obtain pevs where
    pe: "trace st = trace ?st0 @ pevs" "list_all publish_event pevs"
        "\<forall>b. list_ex (pull_for b) pevs \<longrightarrow> b \<in> set (good_branches st)"
    by auto
  have p0: "\<not> list_ex (pull_for b) (trace ?st0)"
    using assms(2) by (simp add: start_def call_def pull_for_Call)
  show ?thesis
  proof (cases exc)
    case (Some e)
    then have "sweep w cfg ch (labels, tb, excl) evs = (st, Some e)"
      using False l by (simp add: sweep_def)
    then show ?thesis using dj pe p0 by auto
  next
    case None
    then have r: "sweep w cfg ch (labels, tb, excl) evs = sweep_report w ch tb st"
      using False l by (simp add: sweep_def)
    from sweep_report_facts [of w ch tb st] obtain revs where
      re: "good_branches (fst (sweep_report w ch tb st)) = good_branches st"
          "failed_branches (fst (sweep_report w ch tb st)) = failed_branches st"
          "trace (fst (sweep_report w ch tb st)) = trace st @ revs" "list_all report_event revs"
      by blast
    have "\<not> list_ex (pull_for b) revs" using re(4) by (rule no_pull_report)
    then show ?thesis using r re(1,2,3) dj pe p0 by (auto simp: failed_names_def)
  qed
qed

lemma cherryPickPr_sets:
  "set (good_branches (fst (cherryPickPr w cfg))) \<inter> failed_names (fst (cherryPickPr w cfg)) = {}
   \<and> (list_ex (pull_for b) (trace (fst (cherryPickPr w cfg)))
        \<longrightarrow> b \<in> set (good_branches (fst (cherryPickPr w cfg))))"
proof -
  obtain evs fl where g: "get_change w cfg = (evs, fl)" by (cases "get_change w cfg")
  obtain evs' fl' where c: "compose w cfg = (evs', fl')" by (cases "compose w cfg")
  have "list_all retrieval evs" using get_change_retrieval [of w cfg] g by simp
  then have n1: "\<not> list_ex (pull_for b) evs" by (rule no_pull_retrieval)
  have "list_all retrieval evs'" using compose_retrieval [of w cfg] c by simp
  then have n2: "\<not> list_ex (pull_for b) evs'" by (rule no_pull_retrieval)
  show ?thesis
  proof (cases "\<exists>ch plan. fl = Continue ch \<and> fl' = Continue plan")
    case True
    then obtain ch labels tb excl where
      k: "fl = Continue ch" "fl' = Continue (labels, tb, excl)"
      by (metis prod_cases3)
    have "distinct tb" using c k(2) compose_distinct by simp
    moreover have "\<not> list_ex (pull_for b) (evs @ evs')" using n1 n2 by simp
    ultimately show ?thesis
      using sweep_sets [of tb b "evs @ evs'" w cfg ch labels excl] g c k
      by (simp add: cherryPickPr_def)
  next
    case False
    then have "\<exists>tr. fst (cherryPickPr w cfg) = start tr \<and> \<not> list_ex (pull_for b) tr"
      using g c n1 n2 by (auto simp: cherryPickPr_def split: flow.splits)
    then show ?thesis by (auto simp: start_def failed_names_def)
  qed
qed

text \<open>
  The two sets of a run are disjoint, and a pull request that the run opens is for a
  branch of the succeeded set.
\<close>

lemma cherryPickPr_disjoint:
  "set (good_branches (fst (cherryPickPr w cfg))) \<inter> failed_names (fst (cherryPickPr w cfg)) = {}"
  using cherryPickPr_sets [of w cfg] by simp

lemma cherryPickPr_pull_succeeded:
  "list_ex (pull_for b) (trace (fst (cherryPickPr w cfg)))
   \<Longrightarrow> b \<in> set (good_branches (fst (cherryPickPr w cfg)))"
  using cherryPickPr_sets [of w cfg b] by simp

text \<open>
  Claim C10 fails on the program for the excluded branches. With the labels
  \<^verbatim>\<open>sweep:from rel-6\<close> and \<^verbatim>\<open>alsoTargeting:rel-6\<close> the exclusion set of the specification is
  \<open>{rel-6}\<close> and the program holds the \<^verbatim>\<open>bytes\<close> value \<^verbatim>\<open>b'rel-6'\<close> in its exclusion set, which
  equals no target branch: when every call succeeds the excluded branch \<^verbatim>\<open>rel-6\<close> ends in
  the succeeded set, and when the merge fails it ends in the failed set.
\<close>

theorem C10_excluded_branch_in_a_set:
  "spec_exclusion [''sweep:from rel-6'', ''alsoTargeting:rel-6''] = [''rel-6'']
   \<and> snd (compose (ok_world [''sweep:from rel-6'', ''alsoTargeting:rel-6''] []) (merge_config []))
       = Continue ([''sweep:done'', ''sweep:from rel-6'', ''alsoTargeting:rel-6''],
                   [''rel-6''], [PyBytes ''rel-6''])
   \<and> good_branches (fst (cherryPickPr
        (ok_world [''sweep:from rel-6'', ''alsoTargeting:rel-6''] []) (merge_config [])))
       = [''rel-6'']
   \<and> failed_names (fst (cherryPickPr
        (merge_fails_world [''sweep:from rel-6'', ''alsoTargeting:rel-6''] []) (merge_config [])))
       = {''rel-6''}"
  by (simp add: model_defs example_defs spec_exclusion_def failed_names_def
                encode_ascii_replace_def)

text \<open>
  An error of the forge without a message in the pass for a branch: the handler raises
  while it formats its log line, the exception leaves the loop, and neither this branch
  nor the branches after it reach a set.
\<close>

lemma messageless_error_leaves_loop:
  "publish_loop
     ((ok_world [] [])\<lparr>api_ok := (\<lambda>c. c \<noteq> GetBranch ''rel-7''),
                        exc_data := (\<lambda>c. NoMessage)\<rparr>)
     (merge_config []) example_change [] [''rel-7'', ''rel-8''] (start [])
   = (\<lparr>trace = [Call (GetBranch ''rel-7'') False], good_branches = [],
        failed_branches = []\<rparr>,
      Some KeyError)"
  by (simp add: model_defs example_defs)




subsection \<open>The sweep summary\<close>

lemma calls_of_append: "calls_of (xs @ ys) = calls_of xs @ calls_of ys"
  by (induction xs rule: calls_of.induct) auto

lemma no_summary_retrieval:
  "list_all retrieval evs \<Longrightarrow> filter summary_call (calls_of evs) = []"
proof (induction evs)
  case Nil
  then show ?case by simp
next
  case (Cons e evs)
  then have "retrieval e" by simp
  then have "filter summary_call (calls_of [e]) = []"
    by (cases e rule: retrieval.cases) auto
  with Cons calls_of_append [of "[e]" evs] show ?case by simp
qed

lemma publish_not_summary: "publish_call c \<Longrightarrow> \<not> summary_call c"
  by (cases c) auto

lemma no_summary_publish:
  "list_all publish_event evs \<Longrightarrow> filter summary_call (calls_of evs) = []"
proof (induction evs)
  case Nil
  then show ?case by simp
next
  case (Cons e evs)
  then have "publish_event e" by simp
  then have "filter summary_call (calls_of [e]) = []"
    by (cases e) (auto simp: publish_not_summary)
  with Cons calls_of_append [of "[e]" evs] show ?case by simp
qed

text \<open>
  The posting of the summary makes no call twice. When the error of the call that fails
  carries a message, the handler logs it and the function returns.
\<close>

lemma post_summary_facts:
  "good_branches (fst (post_summary w ch st)) = good_branches st
   \<and> failed_branches (fst (post_summary w ch st)) = failed_branches st
   \<and> (\<exists>evs. trace (fst (post_summary w ch st)) = trace st @ evs
          \<and> list_all report_event evs
          \<and> distinct (filter summary_call (calls_of evs)))"
  by (simp add: post_summary_def summary_body_def emit_def call_def Let_def
           split: option.splits)

lemma post_summary_swallows:
  assumes "summary_body w ch st = (evs, Some c)" and "exc_data w c = Message"
  shows "post_summary w ch st
           = (emit (evs @ [Log Critical ''failed to add comment with sweep summary'']) st, None)"
  using assms by (simp add: post_summary_def message_def)

lemma post_summary_raises:
  assumes "summary_body w ch st = (evs, Some c)" and "message_error (exc_data w c) = Some e"
  shows "post_summary w ch st = (emit evs st, Some e)"
  using assms by (simp add: post_summary_def message_def)

lemma sweep_report_summary:
  "\<exists>evs. trace (fst (sweep_report w ch tb st)) = trace st @ evs
         \<and> distinct (filter summary_call (calls_of evs))"
  by (simp add: sweep_report_def post_summary_def summary_body_def emit_def call_def Let_def
           split: option.splits)

lemma sweep_summary_calls:
  assumes "filter summary_call (calls_of evs) = []"
  shows "distinct (filter summary_call (calls_of (trace (fst (sweep w cfg ch plan evs)))))"
proof -
  obtain labels tb excl where plan: "plan = (labels, tb, excl)" by (cases plan)
  show ?thesis
  proof (cases "dry_run cfg \<or> \<not> api_ok w (SetLabels labels)")
    case True
    then show ?thesis using assms plan
      by (auto simp: sweep_def start_def call_def calls_of_append)
  next
    case False
    let ?st0 = "start (evs @ [call w (SetLabels labels)])"
    let ?ts = "set_iter (str_hash w) tb"
    obtain st exc where l: "publish_loop w cfg ch excl ?ts ?st0 = (st, exc)"
      by (cases "publish_loop w cfg ch excl ?ts ?st0")
    from publish_loop_trace [of w cfg ch excl ?ts ?st0] l obtain pevs where
      pe: "trace st = trace ?st0 @ pevs" "list_all publish_event pevs"
      by auto
    have n: "filter summary_call (calls_of (trace st)) = []"
      using pe assms no_summary_publish [OF pe(2)]
      by (simp add: start_def call_def calls_of_append)
    show ?thesis
    proof (cases exc)
      case (Some e)
      then have "sweep w cfg ch plan evs = (st, Some e)"
        using False l plan by (simp add: sweep_def)
      then show ?thesis using n by simp
    next
      case None
      then have r: "sweep w cfg ch plan evs = sweep_report w ch tb st"
        using False l plan by (simp add: sweep_def)
      from sweep_report_summary [of w ch tb st] obtain revs where
        "trace (fst (sweep_report w ch tb st)) = trace st @ revs"
        "distinct (filter summary_call (calls_of revs))"
        by blast
      then show ?thesis using r n by (simp add: calls_of_append)
    qed
  qed
qed

lemma cherryPickPr_summary_calls:
  "distinct (filter summary_call (calls_of (trace (fst (cherryPickPr w cfg)))))"
proof -
  obtain evs fl where g: "get_change w cfg = (evs, fl)" by (cases "get_change w cfg")
  obtain evs' fl' where c: "compose w cfg = (evs', fl')" by (cases "compose w cfg")
  have "list_all retrieval evs" using get_change_retrieval [of w cfg] g by simp
  then have n1: "filter summary_call (calls_of evs) = []" by (rule no_summary_retrieval)
  have "list_all retrieval evs'" using compose_retrieval [of w cfg] c by simp
  then have n2: "filter summary_call (calls_of evs') = []" by (rule no_summary_retrieval)
  have n: "filter summary_call (calls_of (evs @ evs')) = []"
    using n1 n2 by (simp add: calls_of_append)
  show ?thesis
    using g c n n1 sweep_summary_calls [OF n, of w cfg]
    by (auto simp: cherryPickPr_def start_def split: flow.splits)
qed

text \<open>
  Claim C9 fails on the program when the error of the forge carries no message. The
  handler of lines 506-511 formats \<^verbatim>\<open>e.data["message"]\<close> into its log line; when the
  posting of the summary comment fails with an error whose data has no message, that
  expression raises \<^verbatim>\<open>KeyError\<close> in the handler (\<^verbatim>\<open>TypeError\<close> when the error has no data):
  nothing is logged after the call that failed and the exception leaves \<^verbatim>\<open>cherryPickPr\<close>.
  With a message the same failure is logged and the run returns.
\<close>

theorem C9_summary_failure_propagates:
  "cherryPickPr
     ((ok_world [''alsoTargeting:rel-7''] [])
        \<lparr>api_ok := (\<lambda>c. c \<noteq> CreateIssueComment [''rel-7''] [] None),
         exc_data := (\<lambda>c. NoMessage)\<rparr>)
     (merge_config [])
   = (\<lparr>trace = [Call (GetCommit ''abc1234'') True, Call (GitShow ''abc1234'') True,
                 Call (GetPull 42) True, Call (GetUser ''alice'') True,
                 Call (GetCommits ''alice'') True, Call GetLabels True, Call GetFiles True,
                 Call (SetLabels [''sweep:done'', ''alsoTargeting:rel-7'']) True,
                 Call (GetBranch ''rel-7'') True,
                 Call (CreateGitRef ''refs/heads/cherry-pick-2-abc1234-rel-7'' ''def5678'') True,
                 Call (Merge ''cherry-pick-2-abc1234-rel-7'' ''abc1234'') True,
                 Call (CreatePull (new_pr_title example_change ''rel-7'')
                         (body_text example_change ''rel-7'')
                         ''bot:cherry-pick-2-abc1234-rel-7'' ''rel-7'') True,
                 Call (PullAddToLabels ''rel-7'' ''sweep:from master'') True,
                 Call (PullGetLabels ''rel-7'') True,
                 Call (CreateIssueComment [''rel-7''] [] None) False],
        good_branches = [''rel-7''], failed_branches = []\<rparr>,
      Some KeyError)
   \<and> snd (cherryPickPr
        ((ok_world [''alsoTargeting:rel-7''] [])
           \<lparr>api_ok := (\<lambda>c. c \<noteq> CreateIssueComment [''rel-7''] [] None),
            exc_data := (\<lambda>c. NoData)\<rparr>)
        (merge_config [])) = Some TypeError
   \<and> snd (cherryPickPr
        ((ok_world [''alsoTargeting:rel-7''] [])
           \<lparr>api_ok := (\<lambda>c. c \<noteq> CreateIssueComment [''rel-7''] [] None)\<rparr>)
        (merge_config [])) = None
   \<and> last (trace (fst (cherryPickPr
        ((ok_world [''alsoTargeting:rel-7''] [])
           \<lparr>api_ok := (\<lambda>c. c \<noteq> CreateIssueComment [''rel-7''] [] None)\<rparr>)
        (merge_config []))))
       = Log Critical ''failed to add comment with sweep summary''"
  by (simp add: model_defs example_defs basename_def dirname_def)

subsection \<open>The disposition label\<close>

lemma no_set_labels_retrieval: "list_all retrieval evs \<Longrightarrow> filter is_set_labels evs = []"
  using retrieval_not_set_labels [of evs] by (simp add: list_ex_iff filter_empty_conv)

lemma no_set_labels_publish: "list_all publish_event evs \<Longrightarrow> filter is_set_labels evs = []"
proof (induction evs)
  case Nil
  then show ?case by simp
next
  case (Cons e evs)
  then have "publish_event e" by simp
  then have "\<not> is_set_labels e"
    by (cases e rule: is_set_labels.cases) auto
  with Cons show ?case by simp
qed

lemma no_set_labels_report: "list_all report_event evs \<Longrightarrow> filter is_set_labels evs = []"
proof (induction evs)
  case Nil
  then show ?case by simp
next
  case (Cons e evs)
  then have "report_event e" by simp
  then have "\<not> is_set_labels e"
    by (cases e rule: is_set_labels.cases) auto
  with Cons show ?case by simp
qed

lemma sweep_set_labels:
  assumes "\<not> dry_run cfg"
  shows "filter is_set_labels (trace (fst (sweep w cfg ch (labels, tb, excl) evs)))
           = filter is_set_labels evs @ [Call (SetLabels labels) (api_ok w (SetLabels labels))]"
proof (cases "api_ok w (SetLabels labels)")
  case False
  then show ?thesis using assms by (simp add: sweep_def start_def call_def)
next
  case True
  let ?st0 = "start (evs @ [call w (SetLabels labels)])"
  let ?ts = "set_iter (str_hash w) tb"
  obtain st exc where l: "publish_loop w cfg ch excl ?ts ?st0 = (st, exc)"
    by (cases "publish_loop w cfg ch excl ?ts ?st0")
  from publish_loop_trace [of w cfg ch excl ?ts ?st0] l obtain pevs where
    pe: "trace st = trace ?st0 @ pevs" "list_all publish_event pevs"
    by auto
  have n: "filter is_set_labels (trace st)
             = filter is_set_labels evs @ [Call (SetLabels labels) (api_ok w (SetLabels labels))]"
    using pe(1) no_set_labels_publish [OF pe(2)] by (simp add: start_def call_def)
  show ?thesis
  proof (cases exc)
    case (Some e)
    then have "sweep w cfg ch (labels, tb, excl) evs = (st, Some e)"
      using True assms l by (simp add: sweep_def)
    then show ?thesis using n by simp
  next
    case None
    then have r: "sweep w cfg ch (labels, tb, excl) evs = sweep_report w ch tb st"
      using True assms l by (simp add: sweep_def)
    from sweep_report_facts [of w ch tb st] obtain revs where
      "trace (fst (sweep_report w ch tb st)) = trace st @ revs" "list_all report_event revs"
      by blast
    then show ?thesis using r n no_set_labels_report [of revs] by simp
  qed
qed

lemma compose_targets:
  assumes "compose w cfg = (evs, Continue (labels, tb, excl))"
  shows "labels = List.insert (if tb = [] then ''sweep:ignore'' else ''sweep:done'')
                    (py_set (pr_label_names w))"
    and "\<exists>S. rule_targets (re_compile w) (target_branch_rules cfg) (listChangedPackages w) []
               = Inr S
             \<and> set tb = set (explicit_targets w) \<union> set S"
proof -
  obtain b tb0 ex ws where
    s: "sweep_labels (set_iter (str_hash w) (py_set (pr_label_names w))) ([], [], []) = (b, tb0, ex, ws)"
    by (cases "sweep_labels (set_iter (str_hash w) (py_set (pr_label_names w))) ([], [], [])")
  then have e: "explicit_targets w = tb0" by (simp add: explicit_targets_def)
  from assms s have
    r: "rule_targets (re_compile w) (target_branch_rules cfg) (listChangedPackages w) tb0 = Inr tb"
    and lb: "labels = List.insert (if tb = [] then ''sweep:ignore'' else ''sweep:done'')
                    (py_set (pr_label_names w))"
    by (auto simp: compose_def Let_def split: if_splits bool.splits sum.splits)
  show "labels = List.insert (if tb = [] then ''sweep:ignore'' else ''sweep:done'')
                    (py_set (pr_label_names w))"
    by (rule lb)
  have ok: "\<forall>r\<in>set (target_branch_rules cfg). re_compile w (fst r) \<noteq> None"
  proof (rule ccontr)
    assume "\<not> (\<forall>r\<in>set (target_branch_rules cfg). re_compile w (fst r) \<noteq> None)"
    then have "\<exists>r\<in>set (target_branch_rules cfg). re_compile w (fst r) = None" by simp
    then have "rule_targets (re_compile w) (target_branch_rules cfg) (listChangedPackages w) tb0
                 = Inl ReError"
      by (rule rule_targets_raises)
    with r show False by simp
  qed
  from rule_targets_set [OF ok, of "listChangedPackages w" tb0] r have
    1: "set tb = set tb0 \<union> {b. \<exists>r\<in>set (target_branch_rules cfg). \<exists>m.
                 re_compile w (fst r) = Some m \<and> listChangedPackages w \<noteq> []
                 \<and> list_all m (listChangedPackages w) \<and> b \<in> set (snd r)}"
    by auto
  from rule_targets_set [OF ok, of "listChangedPackages w" "[]"] obtain S where
    2: "rule_targets (re_compile w) (target_branch_rules cfg) (listChangedPackages w) [] = Inr S"
       "set S = {b. \<exists>r\<in>set (target_branch_rules cfg). \<exists>m.
                 re_compile w (fst r) = Some m \<and> listChangedPackages w \<noteq> []
                 \<and> list_all m (listChangedPackages w) \<and> b \<in> set (snd r)}"
    by auto
  show "\<exists>S. rule_targets (re_compile w) (target_branch_rules cfg) (listChangedPackages w) []
               = Inr S
             \<and> set tb = set (explicit_targets w) \<union> set S"
    using 1 2 e by auto
qed

text \<open>
  Claim C3, as amended. In a run that is not a dry run, for a change record that is read
  and whose targets are composed (no label ends the run, the changed files are read, the
  patterns compile): the disposition is \<^verbatim>\<open>sweep:ignore\<close> exactly when the set of target
  branches is empty, and \<^verbatim>\<open>sweep:done\<close> otherwise, where the target branches are the
  branches that the labels include together with the rule-derived ones, no exclusion
  subtracted; and the run makes exactly one \<^verbatim>\<open>set_labels\<close> call, with the labels of the
  pull request and the disposition.
\<close>

theorem C3_disposition:
  assumes "get_change w cfg = (evs, Continue ch)"
    and "compose w cfg = (evs', Continue (labels, target_branches, excl))"
    and "\<not> dry_run cfg"
  shows "labels = List.insert (if target_branches = [] then ''sweep:ignore'' else ''sweep:done'')
                    (py_set (pr_label_names w))
       \<and> (\<exists>S. rule_targets (re_compile w) (target_branch_rules cfg) (listChangedPackages w) []
                 = Inr S
               \<and> set target_branches = set (explicit_targets w) \<union> set S)
       \<and> filter is_set_labels (trace (fst (cherryPickPr w cfg)))
           = [Call (SetLabels labels) (api_ok w (SetLabels labels))]"
proof -
  have "list_all retrieval evs" using get_change_retrieval [of w cfg] assms(1) by simp
  then have n1: "filter is_set_labels evs = []" by (rule no_set_labels_retrieval)
  have "list_all retrieval evs'" using compose_retrieval [of w cfg] assms(2) by simp
  then have n2: "filter is_set_labels evs' = []" by (rule no_set_labels_retrieval)
  have "cherryPickPr w cfg = sweep w cfg ch (labels, target_branches, excl) (evs @ evs')"
    using assms(1,2) by (simp add: cherryPickPr_def)
  then have "filter is_set_labels (trace (fst (cherryPickPr w cfg)))
           = [Call (SetLabels labels) (api_ok w (SetLabels labels))]"
    using sweep_set_labels [OF assms(3), of w ch labels target_branches excl "evs @ evs'"] n1 n2
    by simp
  then show ?thesis using compose_targets [OF assms(2)] by simp
qed

theorem C3_disposition_witness:
  "filter is_set_labels (trace (fst (cherryPickPr (ok_world [] []) (merge_config []))))
     = [Call (SetLabels [''sweep:ignore'']) True]
   \<and> filter is_set_labels
       (trace (fst (cherryPickPr (ok_world [''alsoTargeting:rel-7''] []) (merge_config []))))
     = [Call (SetLabels [''sweep:done'', ''alsoTargeting:rel-7'']) True]"
  using C3_disposition [where w = "ok_world [] []" and cfg = "merge_config []"
          and evs = "[Call (GetCommit ''abc1234'') True, Call (GitShow ''abc1234'') True,
                      Call (GetPull 42) True, Call (GetUser ''alice'') True,
                      Call (GetCommits ''alice'') True, Call GetLabels True]"
          and ch = example_change and evs' = "[Call GetFiles True]"
          and labels = "[''sweep:ignore'']" and target_branches = "[]" and excl = "[]"]
        C3_disposition [where w = "ok_world [''alsoTargeting:rel-7''] []" and cfg = "merge_config []"
          and evs = "[Call (GetCommit ''abc1234'') True, Call (GitShow ''abc1234'') True,
                      Call (GetPull 42) True, Call (GetUser ''alice'') True,
                      Call (GetCommits ''alice'') True, Call GetLabels True]"
          and ch = example_change and evs' = "[Call GetFiles True]"
          and labels = "[''sweep:done'', ''alsoTargeting:rel-7'']"
          and target_branches = "[''rel-7'']" and excl = "[]"]
  by (simp add: model_defs example_defs)

text \<open>
  The claim as stated fails. With the labels \<^verbatim>\<open>sweep:from rel-6\<close> and
  \<^verbatim>\<open>alsoTargeting:rel-6\<close> and no rule, the final target set of the specification is
  empty, and the label written is \<^verbatim>\<open>sweep:done\<close>: line 299 tests the targets before any
  exclusion.
\<close>

theorem C3_counterexample:
  "spec_final_targets re_fragment [] [] [''sweep:from rel-6'', ''alsoTargeting:rel-6''] = {}
   \<and> filter is_set_labels
       (trace (fst (cherryPickPr (ok_world [''sweep:from rel-6'', ''alsoTargeting:rel-6''] [])
                      (merge_config []))))
     = [Call (SetLabels [''sweep:done'', ''sweep:from rel-6'', ''alsoTargeting:rel-6'']) True]"
  by (simp add: model_defs example_defs spec_final_targets_def spec_rule_derived_def
                spec_inclusion_def spec_exclusion_def)

subsection \<open>The labels that include and exclude branches\<close>

lemma split_no_sep: "sep \<notin> set s \<Longrightarrow> split sep s = [s]"
  by (induction s) auto

lemma split_first: "sep \<notin> set a \<Longrightarrow> split sep (a @ sep # b) = a # split sep b"
  by (induction a) auto

lemma split_length: "length (split sep s) = Suc (length (filter (\<lambda>c. c = sep) s))"
  by (induction s) (auto split: list.splits)

lemma split_one: "(\<exists>s1. split sep b = [s1]) \<longleftrightarrow> sep \<notin> set b"
proof
  assume "\<exists>s1. split sep b = [s1]"
  then have "length (split sep b) = 1" by auto
  then have "filter (\<lambda>c. c = sep) b = []" by (simp add: split_length)
  then show "sep \<notin> set b" by (auto simp: filter_empty_conv)
next
  assume "sep \<notin> set b"
  then show "\<exists>s1. split sep b = [s1]" by (simp add: split_no_sep)
qed

lemma split_two:
  "sep \<notin> set a \<Longrightarrow> (\<exists>s1. split sep (a @ sep # b) = [a, s1]) \<longleftrightarrow> sep \<notin> set b"
  using split_one [of sep b] by (simp add: split_first)

text \<open>
  A label \<^verbatim>\<open>alsoTargeting:B\<close> whose \<open>B\<close> has no colon adds \<open>B\<close> to the targets, and one
  whose \<open>B\<close> has a colon adds nothing and logs the warning.
\<close>

lemma also_targeting_wellformed:
  "CHR '':'' \<notin> set b \<Longrightarrow>
   also_targeting (''alsoTargeting:'' @ b) (tb, ws) = (List.insert b tb, ws)"
  using split_first [of "CHR '':''" "''alsoTargeting''" b]
  by (simp add: also_targeting_def split_no_sep)

lemma also_targeting_colon:
  "CHR '':'' \<in> set b \<Longrightarrow>
   also_targeting (''alsoTargeting:'' @ b) (tb, ws)
     = (tb, ws @ [Log Warning ''has empty 'alsoTargeting:' label -> ignore''])"
proof -
  assume b: "CHR '':'' \<in> set b"
  have "\<not> (\<exists>s1. split CHR '':'' (''alsoTargeting'' @ CHR '':'' # b) = [''alsoTargeting'', s1])"
    using split_two [of "CHR '':''" "''alsoTargeting''" b] b by simp
  moreover have "split CHR '':'' (''alsoTargeting'' @ CHR '':'' # b)
                   = ''alsoTargeting'' # split CHR '':'' b"
    by (rule split_first) simp
  ultimately show ?thesis
    by (auto simp: also_targeting_def split: list.splits)
qed

text \<open>
  The excluded values are \<^verbatim>\<open>bytes\<close> objects, and the test of line 318 compares them with
  the target branch, a \<^verbatim>\<open>str\<close>: no branch is ever excluded.
\<close>

lemma sweep_labels_bytes:
  "list_all is_bytes ex \<Longrightarrow> list_all is_bytes (fst (snd (snd (sweep_labels ls (tb, ex, ws)))))"
proof (induction ls arbitrary: tb ex ws)
  case Nil
  then show ?case by simp
next
  case (Cons l ls)
  have "list_all is_bytes (sweep_from l ex)"
    using Cons.prems by (auto simp: sweep_from_def list_all_iff split: list.splits)
  from Cons.IH [OF this] Cons.prems show ?case
    by (simp add: Let_def split: prod.splits)
qed

lemma bytes_never_exclude: "list_all is_bytes ex \<Longrightarrow> \<not> tbranch_excluded ex t"
  by (induction ex) (auto elim: is_bytes.elims)

lemma compose_never_excludes:
  assumes "compose w cfg = (evs, Continue (labels, tb, excl))"
  shows "\<not> tbranch_excluded excl t"
proof -
  obtain b tb0 ex ws where
    s: "sweep_labels (set_iter (str_hash w) (py_set (pr_label_names w))) ([], [], []) = (b, tb0, ex, ws)"
    by (cases "sweep_labels (set_iter (str_hash w) (py_set (pr_label_names w))) ([], [], [])")
  have "list_all is_bytes (fst (snd (snd (sweep_labels (set_iter (str_hash w) (py_set (pr_label_names w))) ([], [], [])))))"
    by (rule sweep_labels_bytes) simp
  with s have "list_all is_bytes ex" by simp
  moreover from assms s have "excl = ex"
    by (auto simp: compose_def Let_def split: if_splits bool.splits sum.splits)
  ultimately show ?thesis by (simp add: bytes_never_exclude)
qed

text \<open>
  Claim C1 fails on the program. With the labels \<^verbatim>\<open>sweep:from rel-6\<close>,
  \<^verbatim>\<open>alsoTargeting:rel-6\<close> and \<^verbatim>\<open>alsoTargeting:rel-7\<close> and no rule, the final target set of the
  specification is \<open>{rel-7}\<close>; the run opens pull requests into \<^verbatim>\<open>rel-6\<close> and \<^verbatim>\<open>rel-7\<close>.
\<close>

theorem C1_excluded_branch_is_published:
  "spec_final_targets re_fragment [] []
      [''sweep:from rel-6'', ''alsoTargeting:rel-6'', ''alsoTargeting:rel-7''] = {''rel-7''}
   \<and> good_branches (fst (cherryPickPr
        (ok_world [''sweep:from rel-6'', ''alsoTargeting:rel-6'', ''alsoTargeting:rel-7''] [])
        (merge_config []))) = [''rel-6'', ''rel-7'']
   \<and> list_ex (pull_for ''rel-6'') (trace (fst (cherryPickPr
        (ok_world [''sweep:from rel-6'', ''alsoTargeting:rel-6'', ''alsoTargeting:rel-7''] [])
        (merge_config []))))"
  by (simp add: model_defs example_defs spec_final_targets_def spec_rule_derived_def
                spec_inclusion_def spec_exclusion_def)

text \<open>
  Claim C6 fails on the program for the empty branch value. The label \<^verbatim>\<open>alsoTargeting:\<close>
  splits in two parts, so the empty name is added to the targets and no warning is logged;
  the run then writes \<^verbatim>\<open>sweep:done\<close> and asks the forge for the branch with the empty name.
\<close>

theorem C6_empty_branch_is_added:
  "sweep_labels [''alsoTargeting:''] ([], [], []) = (False, [[]], [], [])
   \<and> explicit_targets (ok_world [''alsoTargeting:''] []) = [[]]
   \<and> trace (fst (cherryPickPr (ok_world [''alsoTargeting:''] []) (merge_config []))) ! 7
       = Call (SetLabels [''sweep:done'', ''alsoTargeting:'']) True
   \<and> trace (fst (cherryPickPr (ok_world [''alsoTargeting:''] []) (merge_config []))) ! 8
       = Call (GetBranch []) True"
  by (simp add: model_defs example_defs explicit_targets_def)

end
